theory Spec2Isabelle
  imports Complex_Main "HOL-Library.AList"
begin

section \<open>avtrust\_bridge: the trust estimator node\<close>

text \<open>
  A shallow embedding of \<^verbatim>\<open>avtrust_bridge/estimator.py\<close>: the constructor of
  \<^verbatim>\<open>TrustEstimatorNode\<close>, its callback \<^verbatim>\<open>trks_fov_receive\<close> and the
  \<^verbatim>\<open>rclpy.spin\<close> loop of \<^verbatim>\<open>main\<close>.

  The node talks to collaborators that live outside the file (the trust model, the
  transform buffer, the message bridges).  They are parameters of the embedding: every call
  that computes something may raise, so it returns a value of \<open>exn + 'a\<close>; a call on the
  trust model also returns the model it leaves behind.  What the node makes visible to the
  outside (log lines, collaborator invocations, published messages) is collected in a
  list of events, in program order.
\<close>

subsection \<open>Python values\<close>

datatype exn =
    NotImplementedError string
  | AssertionError
  | UnboundLocalError string
  | Raised string

text \<open>\<^verbatim>\<open>str(n)\<close> for a non-negative integer, as the f-strings of the source use it.\<close>

definition digit_char :: "nat \<Rightarrow> char" where
  "digit_char d = ''0123456789'' ! d"

function str_nat :: "nat \<Rightarrow> string" where
  "str_nat n = (if n < 10 then [digit_char n] else str_nat (n div 10) @ [digit_char (n mod 10)])"
  by pat_completeness auto
termination
  by (relation "measure id") auto

declare str_nat.simps [simp del]

text \<open>
  \<^verbatim>\<open>xs[lo:hi]\<close> on a list, for integer bounds: a negative bound counts from the end,
  and both bounds are clipped to the list.
\<close>

definition slice_index :: "nat \<Rightarrow> int \<Rightarrow> nat" where
  "slice_index len i = (if i < 0 then nat (max 0 (int len + i)) else min (nat i) len)"

definition py_slice :: "'a list \<Rightarrow> int \<Rightarrow> int \<Rightarrow> 'a list" where
  "py_slice xs lo hi =
     (let a = slice_index (length xs) lo; b = slice_index (length xs) hi
      in take (b - a) (drop a xs))"

text \<open>A \<^verbatim>\<open>dict\<close> keeps insertion order; assignment replaces in place or appends.\<close>

type_synonym ('k, 'v) dict = "('k \<times> 'v) list"

definition dict_set :: "('k, 'v) dict \<Rightarrow> 'k \<Rightarrow> 'v \<Rightarrow> ('k, 'v) dict" where
  "dict_set d k v = AList.update k v d"

definition dict_values :: "('k, 'v) dict \<Rightarrow> 'v list" where
  "dict_values d = map snd d"

subsection \<open>Messages\<close>

record rostime =
  sec :: int
  nanosec :: nat

record header =
  frame_id :: string
  stamp :: rostime

text \<open>
  An incoming message (\<^verbatim>\<open>BoxTrackArray\<close> or \<^verbatim>\<open>PolygonStamped\<close>): a header and a
  payload the node never looks into.
\<close>

record 'v msg =
  header :: header
  payload :: 'v

record 'v transform_stamped =
  tf_header :: header
  translation :: 'v

text \<open>\<^verbatim>\<open>rclpy.time.Time()\<close>: the zero time, which the transform buffer reads as "latest".\<close>

definition Time0 :: rostime where
  "Time0 = \<lparr>sec = 0, nanosec = 0\<rparr>"

subsection \<open>Configuration objects built by the constructor\<close>

datatype history_policy = KEEP_LAST | KEEP_ALL
datatype reliability_policy = RELIABLE | BEST_EFFORT
datatype durability_policy = VOLATILE | TRANSIENT_LOCAL

record qos_profile =
  history :: history_policy
  depth :: nat
  reliability :: reliability_policy
  durability :: durability_policy

datatype msg_type = BoxTrackArray | PolygonStamped | PsmArrayRos | TrustArrayRos

record endpoint =
  ep_type :: msg_type
  ep_topic :: string
  ep_qos :: qos_profile

datatype sub_key = AgentID nat | CommandCenter

record synchronizer =
  inputs :: "endpoint list"
  queue_size :: nat
  slop :: rat

subsection \<open>Events\<close>

datatype sink = AgentPsms | TrackPsms | AgentTrust | TrackTrust

datatype 'v event =
    LogInfo string
  | LookupTransform string string rostime
  | PropagateTrackTrust rat
  | PropagateAgentTrust rat
  | ModelCall "(nat, 'v) dict" "(nat, 'v) dict" "(nat, 'v) dict" 'v
  | Publish sink 'v

subsection \<open>Collaborators\<close>

text \<open>
  \<open>tracks_to_avstack\<close>, \<open>polygon_to_avstack\<close>, \<open>position_to_avstack\<close> and
  \<open>rostime_to_time\<close> are the bridges of \<^verbatim>\<open>avstack_bridge\<close>; \<open>psm_array_to_ros\<close> and
  \<open>trust_array_to_ros\<close> are \<^verbatim>\<open>TrustBridge\<close> of \<^verbatim>\<open>avtrust_bridge/bridge.py\<close>;
  \<open>publish\<close> is the \<^verbatim>\<open>publish\<close> method of the four publishers of the node, named by
  their sink; the others are the methods of the \<^verbatim>\<open>TrustEstimator\<close> model (\<open>model_call\<close> is
  \<^verbatim>\<open>self.model(...)\<close>, with the keyword arguments in the order position, fov, agent tracks,
  command-center tracks, and the result the tuple trust agents, trust tracks, psms agents,
  psms tracks).  \<open>diagnostics\<close> and \<open>assign_diagnostics\<close> stand for
  \<^verbatim>\<open>str(self.model.measurement._diagnostics)\<close> and its sibling.
\<close>

record ('v, 'm) collaborators =
  tracks_to_avstack :: "'v msg \<Rightarrow> exn + 'v"
  polygon_to_avstack :: "'v msg \<Rightarrow> exn + 'v"
  position_to_avstack :: "'v \<Rightarrow> header \<Rightarrow> exn + 'v"
  rostime_to_time :: "rostime \<Rightarrow> exn + rat"
  psm_array_to_ros :: "'v \<Rightarrow> exn + 'v"
  trust_array_to_ros :: "'v \<Rightarrow> exn + 'v"
  publish :: "sink \<Rightarrow> 'v \<Rightarrow> exn + unit"
  new_model :: 'm
  model_reset :: "'m \<Rightarrow> 'm"
  propagate_track_trust :: "rat \<Rightarrow> 'm \<Rightarrow> (exn + unit) \<times> 'm"
  propagate_agent_trust :: "rat \<Rightarrow> 'm \<Rightarrow> (exn + unit) \<times> 'm"
  model_call :: "(nat, 'v) dict \<Rightarrow> (nat, 'v) dict \<Rightarrow> (nat, 'v) dict \<Rightarrow> 'v \<Rightarrow> 'm
                   \<Rightarrow> (exn + ('v \<times> 'v \<times> 'v \<times> 'v)) \<times> 'm"
  diagnostics :: "'m \<Rightarrow> exn + string"
  assign_diagnostics :: "'m \<Rightarrow> exn + string"

text \<open>
  The transform buffer, as the lookup it answers:
  \<^verbatim>\<open>lookup_transform(target_frame, source_frame, time)\<close>.
\<close>

type_synonym 'v tf_buffer = "string \<Rightarrow> string \<Rightarrow> rostime \<Rightarrow> exn + 'v transform_stamped"

subsection \<open>The node\<close>

record ('v, 'm) node =
  verbose :: bool
  n_agents :: int
  model :: 'm
  tf_buffer :: "'v tf_buffer"
  subscriber_trks :: "(sub_key, endpoint) dict"
  subscriber_fovs :: "(sub_key, endpoint) dict"
  synchronizer_trks :: synchronizer
  publisher_agent_psms :: endpoint
  publisher_track_psms :: endpoint
  publisher_agent_trust :: endpoint
  publisher_track_trust :: endpoint

definition qos :: qos_profile where
  "qos = \<lparr>history = KEEP_LAST, depth = 5, reliability = RELIABLE, durability = VOLATILE\<rparr>"

definition Subscriber :: "msg_type \<Rightarrow> string \<Rightarrow> endpoint" where
  "Subscriber ty tp = \<lparr>ep_type = ty, ep_topic = tp, ep_qos = qos\<rparr>"

definition create_publisher :: "msg_type \<Rightarrow> string \<Rightarrow> endpoint" where
  "create_publisher ty tp = \<lparr>ep_type = ty, ep_topic = tp, ep_qos = qos\<rparr>"

text \<open>\<^verbatim>\<open>range(n)\<close> for an integer \<open>n\<close>: empty when \<open>n\<close> is not positive.\<close>

definition py_range :: "int \<Rightarrow> nat list" where
  "py_range n = [0..<nat n]"

text \<open>
  \<^verbatim>\<open>TrustEstimatorNode.__init__\<close>.  \<open>param\<close> is the value of the ROS parameter
  \<^verbatim>\<open>n_agents\<close> when the launch overrides it (the declared default is 4); \<open>buf\<close> is the
  freshly made transform buffer.
\<close>

definition init ::
  "('v, 'm) collaborators \<Rightarrow> bool \<Rightarrow> int option \<Rightarrow> 'v tf_buffer \<Rightarrow> ('v, 'm) node" where
  "init E vb param buf =
     (let n = (case param of None \<Rightarrow> 4 | Some k \<Rightarrow> k);
          trks0 = map (\<lambda>agent_ID. (AgentID agent_ID,
                     Subscriber BoxTrackArray (''/agent'' @ str_nat agent_ID @ ''/tracks_3d'')))
                   (py_range n);
          trks = dict_set trks0 CommandCenter
                   (Subscriber BoxTrackArray ''/command_center/tracks_3d'');
          fovs = map (\<lambda>agent_ID. (AgentID agent_ID,
                     Subscriber PolygonStamped (''/agent'' @ str_nat agent_ID @ ''/fov'')))
                   (py_range n)
      in \<lparr>verbose = vb,
          n_agents = n,
          model = model_reset E (new_model E),
          tf_buffer = buf,
          subscriber_trks = trks,
          subscriber_fovs = fovs,
          synchronizer_trks =
            \<lparr>inputs = dict_values trks @ dict_values fovs, queue_size = 10, slop = 5 / 100\<rparr>,
          publisher_agent_psms = create_publisher PsmArrayRos ''psms_agents'',
          publisher_track_psms = create_publisher PsmArrayRos ''psms_tracks'',
          publisher_agent_trust = create_publisher TrustArrayRos ''trust_agents'',
          publisher_track_trust = create_publisher TrustArrayRos ''trust_tracks''\<rparr>)"

subsection \<open>The callback\<close>

text \<open>
  The first loop of \<^verbatim>\<open>trks_fov_receive\<close>, over
  \<^verbatim>\<open>enumerate(args[: self.n_agents + 1])\<close>.  \<open>cc\<close> holds the local variables
  \<^verbatim>\<open>cc_msg\<close> and \<^verbatim>\<open>tracks_cc\<close>, which stay unbound until the
  \<^verbatim>\<open>else\<close> branch runs.
\<close>

fun store_tracks ::
  "('v, 'm) collaborators \<Rightarrow> int \<Rightarrow> (nat \<times> 'v msg) list \<Rightarrow> (nat, 'v) dict
     \<Rightarrow> ('v msg \<times> 'v) option \<Rightarrow> exn + ((nat, 'v) dict \<times> ('v msg \<times> 'v) option)" where
  "store_tracks E n [] tracks_agents cc = Inr (tracks_agents, cc)"
| "store_tracks E n ((i_agent, m) # rest) tracks_agents cc =
     (if int i_agent < n then
        (if frame_id (header m) \<noteq> ''world'' then
           Inl (NotImplementedError ''There's a weird bug, so keep things in world frame'')
         else
           (case tracks_to_avstack E m of
              Inl e \<Rightarrow> Inl e
            | Inr t \<Rightarrow> store_tracks E n rest (dict_set tracks_agents i_agent t) cc))
      else
        (case tracks_to_avstack E m of
           Inl e \<Rightarrow> Inl e
         | Inr t \<Rightarrow>
             (if frame_id (header m) = ''world'' then store_tracks E n rest tracks_agents (Some (m, t))
              else Inl AssertionError)))"

text \<open>
  The second loop, over \<^verbatim>\<open>enumerate(args[self.n_agents + 1 : 2 * self.n_agents + 1])\<close>:
  the polygon is converted, then the frame is checked, then the pose is looked up with
  \<^verbatim>\<open>time=Time()\<close>.
\<close>

definition agent_frame :: "nat \<Rightarrow> string" where
  "agent_frame i = ''agent'' @ str_nat i"

text \<open>
  The pose of agent \<open>i_agent\<close>: \<^verbatim>\<open>lookup_transform(target_frame="world",
  source_frame=f"agent{i_agent}", time=Time())\<close>, then \<^verbatim>\<open>position_to_avstack\<close> on the
  translation and the header of the transform.
\<close>

definition lookup_pose :: "('v, 'm) collaborators \<Rightarrow> 'v tf_buffer \<Rightarrow> nat \<Rightarrow> exn + 'v" where
  "lookup_pose E buf i_agent =
     (case buf ''world'' (agent_frame i_agent) Time0 of
        Inl e \<Rightarrow> Inl e
      | Inr tf_world_agent \<Rightarrow>
          position_to_avstack E (translation tf_world_agent) (tf_header tf_world_agent))"

fun store_fovs ::
  "('v, 'm) collaborators \<Rightarrow> 'v tf_buffer \<Rightarrow> (nat \<times> 'v msg) list \<Rightarrow> (nat, 'v) dict
     \<Rightarrow> (nat, 'v) dict \<Rightarrow> (exn + ((nat, 'v) dict \<times> (nat, 'v) dict)) \<times> 'v event list" where
  "store_fovs E buf [] fov_agents position_agents = (Inr (fov_agents, position_agents), [])"
| "store_fovs E buf ((i_agent, m) # rest) fov_agents position_agents =
     (case polygon_to_avstack E m of
        Inl e \<Rightarrow> (Inl e, [])
      | Inr f \<Rightarrow>
          (if frame_id (header m) \<noteq> ''world'' then
             (Inl (NotImplementedError ''Need to convert to global here''), [])
           else
             (case lookup_pose E buf i_agent of
                Inl e \<Rightarrow> (Inl e, [LookupTransform ''world'' (agent_frame i_agent) Time0])
              | Inr p \<Rightarrow>
                  (case store_fovs E buf rest (dict_set fov_agents i_agent f)
                          (dict_set position_agents i_agent p) of
                     (r, evs) \<Rightarrow>
                       (r, LookupTransform ''world'' (agent_frame i_agent) Time0 # evs)))))"

text \<open>
  From the propagation on: the part of the callback after the two loops
  (\<^verbatim>\<open>timestamp = Bridge.rostime_to_time(cc_msg.header.stamp)\<close> to the end).
\<close>

definition log_diagnostics ::
  "('v, 'm) collaborators \<Rightarrow> bool \<Rightarrow> 'm \<Rightarrow> exn option \<times> 'v event list" where
  "log_diagnostics E vb mdl =
     (if vb then
        (case diagnostics E mdl of
           Inl e \<Rightarrow> (Some e, [])
         | Inr d \<Rightarrow>
             (case assign_diagnostics E mdl of
                Inl e \<Rightarrow> (Some e, [LogInfo d])
              | Inr a \<Rightarrow> (None, [LogInfo d, LogInfo a])))
      else (None, []))"

text \<open>
  \<^verbatim>\<open># convert outputs\<close>: the four calls of \<^verbatim>\<open>TrustBridge\<close>, in the order of the source.
  The result is the four messages \<^verbatim>\<open>psms_agents_msg\<close>, \<^verbatim>\<open>psms_tracks_msg\<close>,
  \<^verbatim>\<open>trust_agents_msg\<close>, \<^verbatim>\<open>trust_tracks_msg\<close>.
\<close>

definition convert_outputs ::
  "('v, 'm) collaborators \<Rightarrow> 'v \<times> 'v \<times> 'v \<times> 'v \<Rightarrow> exn + ('v \<times> 'v \<times> 'v \<times> 'v)" where
  "convert_outputs E out =
     (case out of (trust_agents, trust_tracks, psms_agents, psms_tracks) \<Rightarrow>
        (case psm_array_to_ros E psms_agents of
           Inl e \<Rightarrow> Inl e
         | Inr psms_agents_msg \<Rightarrow>
        (case psm_array_to_ros E psms_tracks of
           Inl e \<Rightarrow> Inl e
         | Inr psms_tracks_msg \<Rightarrow>
        (case trust_array_to_ros E trust_agents of
           Inl e \<Rightarrow> Inl e
         | Inr trust_agents_msg \<Rightarrow>
        (case trust_array_to_ros E trust_tracks of
           Inl e \<Rightarrow> Inl e
         | Inr trust_tracks_msg \<Rightarrow>
             Inr (psms_agents_msg, psms_tracks_msg, trust_agents_msg, trust_tracks_msg))))))"

text \<open>
  \<^verbatim>\<open># publish outputs\<close>: four \<^verbatim>\<open>publish\<close> calls, one after the other, nothing around
  them.  A \<open>Publish\<close> event stands for a call that returned (the sink has the message);
  a call that raises ends the callback, and the messages published before it stay
  published.
\<close>

definition publish_messages ::
  "('v, 'm) collaborators \<Rightarrow> 'v \<times> 'v \<times> 'v \<times> 'v \<Rightarrow> exn option \<times> 'v event list" where
  "publish_messages E msgs =
     (case msgs of (psms_agents_msg, psms_tracks_msg, trust_agents_msg, trust_tracks_msg) \<Rightarrow>
        (case publish E AgentPsms psms_agents_msg of
           Inl e \<Rightarrow> (Some e, [])
         | Inr _ \<Rightarrow>
        (case publish E TrackPsms psms_tracks_msg of
           Inl e \<Rightarrow> (Some e, [Publish AgentPsms psms_agents_msg])
         | Inr _ \<Rightarrow>
        (case publish E AgentTrust trust_agents_msg of
           Inl e \<Rightarrow>
             (Some e, [Publish AgentPsms psms_agents_msg, Publish TrackPsms psms_tracks_msg])
         | Inr _ \<Rightarrow>
        (case publish E TrackTrust trust_tracks_msg of
           Inl e \<Rightarrow>
             (Some e, [Publish AgentPsms psms_agents_msg, Publish TrackPsms psms_tracks_msg,
                       Publish AgentTrust trust_agents_msg])
         | Inr _ \<Rightarrow>
             (None, [Publish AgentPsms psms_agents_msg, Publish TrackPsms psms_tracks_msg,
                     Publish AgentTrust trust_agents_msg,
                     Publish TrackTrust trust_tracks_msg]))))))"

text \<open>The end of the callback: convert, publish, then the diagnostics.\<close>

definition publish_outputs ::
  "('v, 'm) collaborators \<Rightarrow> bool \<Rightarrow> 'm \<Rightarrow> 'v \<times> 'v \<times> 'v \<times> 'v
     \<Rightarrow> exn option \<times> 'v event list" where
  "publish_outputs E vb mdl out =
     (case convert_outputs E out of
        Inl e \<Rightarrow> (Some e, [])
      | Inr msgs \<Rightarrow>
          (case publish_messages E msgs of
             (Some e, pubs) \<Rightarrow> (Some e, pubs)
           | (None, pubs) \<Rightarrow>
               (case log_diagnostics E vb mdl of (r, logs) \<Rightarrow> (r, pubs @ logs))))"

definition propagate_and_run ::
  "('v, 'm) collaborators \<Rightarrow> bool \<Rightarrow> 'm \<Rightarrow> (nat, 'v) dict \<Rightarrow> (nat, 'v) dict
     \<Rightarrow> (nat, 'v) dict \<Rightarrow> 'v msg \<Rightarrow> 'v \<Rightarrow> exn option \<times> 'm \<times> 'v event list" where
  "propagate_and_run E vb mdl position_agents fov_agents tracks_agents cc_msg tracks_cc =
     (case rostime_to_time E (stamp (header cc_msg)) of
        Inl e \<Rightarrow> (Some e, mdl, [])
      | Inr timestamp \<Rightarrow>
     (case propagate_track_trust E timestamp mdl of
        (Inl e, m1) \<Rightarrow> (Some e, m1, [PropagateTrackTrust timestamp])
      | (Inr _, m1) \<Rightarrow>
     (case propagate_agent_trust E timestamp m1 of
        (Inl e, m2) \<Rightarrow> (Some e, m2, [PropagateTrackTrust timestamp, PropagateAgentTrust timestamp])
      | (Inr _, m2) \<Rightarrow>
     (case model_call E position_agents fov_agents tracks_agents tracks_cc m2 of
        (Inl e, m3) \<Rightarrow>
          (Some e, m3,
           [PropagateTrackTrust timestamp, PropagateAgentTrust timestamp,
            ModelCall position_agents fov_agents tracks_agents tracks_cc])
      | (Inr out, m3) \<Rightarrow>
          (case publish_outputs E vb m3 out of
             (r, evs) \<Rightarrow>
               (r, m3,
                [PropagateTrackTrust timestamp, PropagateAgentTrust timestamp,
                 ModelCall position_agents fov_agents tracks_agents tracks_cc] @ evs))))))"

text \<open>
  \<^verbatim>\<open>trks_fov_receive(self, *args)\<close>.  The result is the exception that leaves the
  callback (\<open>None\<close> when it returns), the node afterwards and the events of this call.
\<close>

definition received_log :: "bool \<Rightarrow> 'a list \<Rightarrow> 'v event list" where
  "received_log vb args =
     (if vb then [LogInfo (''Received '' @ str_nat (length args) @ '' track/fov messages!'')]
      else [])"

definition trks_fov_receive ::
  "('v, 'm) collaborators \<Rightarrow> ('v, 'm) node \<Rightarrow> 'v msg list
     \<Rightarrow> exn option \<times> ('v, 'm) node \<times> 'v event list" where
  "trks_fov_receive E self args =
     (let n = n_agents self; ev0 = received_log (verbose self) args in
      case store_tracks E n (enumerate 0 (py_slice args 0 (n + 1))) [] None of
        Inl e \<Rightarrow> (Some e, self, ev0)
      | Inr (tracks_agents, cc) \<Rightarrow>
          (case store_fovs E (tf_buffer self)
                  (enumerate 0 (py_slice args (n + 1) (2 * n + 1))) [] [] of
             (Inl e, evs) \<Rightarrow> (Some e, self, ev0 @ evs)
           | (Inr (fov_agents, position_agents), evs) \<Rightarrow>
               (case cc of
                  None \<Rightarrow> (Some (UnboundLocalError ''cc_msg''), self, ev0 @ evs)
                | Some (cc_msg, tracks_cc) \<Rightarrow>
                    (case propagate_and_run E (verbose self) (model self) position_agents
                            fov_agents tracks_agents cc_msg tracks_cc of
                       (r, mdl, evs') \<Rightarrow> (r, self\<lparr>model := mdl\<rparr>, ev0 @ evs @ evs')))))"

subsection \<open>The spin loop\<close>

text \<open>
  \<^verbatim>\<open>rclpy.spin(mate)\<close> in \<^verbatim>\<open>main\<close>: the synchronizer delivers one batch after the
  other to the callback.  \<^verbatim>\<open>main\<close> has no handler, so an exception that leaves the callback
  leaves \<^verbatim>\<open>spin\<close> and ends the process: the remaining batches are not delivered.
\<close>

fun spin ::
  "('v, 'm) collaborators \<Rightarrow> ('v, 'm) node \<Rightarrow> 'v msg list list
     \<Rightarrow> exn option \<times> ('v, 'm) node \<times> 'v event list" where
  "spin E self [] = (None, self, [])"
| "spin E self (args # rest) =
     (case trks_fov_receive E self args of
        (Some e, self', evs) \<Rightarrow> (Some e, self', evs)
      | (None, self', evs) \<Rightarrow>
          (case spin E self' rest of (r, self'', evs') \<Rightarrow> (r, self'', evs @ evs')))"

subsection \<open>Reading the events of a run\<close>

fun is_log :: "'v event \<Rightarrow> bool" where
  "is_log (LogInfo _) = True"
| "is_log _ = False"

fun is_lookup :: "'v event \<Rightarrow> bool" where
  "is_lookup (LookupTransform _ _ _) = True"
| "is_lookup _ = False"

fun is_propagate_track :: "'v event \<Rightarrow> bool" where
  "is_propagate_track (PropagateTrackTrust _) = True"
| "is_propagate_track _ = False"

fun is_propagate_agent :: "'v event \<Rightarrow> bool" where
  "is_propagate_agent (PropagateAgentTrust _) = True"
| "is_propagate_agent _ = False"

fun is_model_call :: "'v event \<Rightarrow> bool" where
  "is_model_call (ModelCall _ _ _ _) = True"
| "is_model_call _ = False"

fun is_publish :: "'v event \<Rightarrow> bool" where
  "is_publish (Publish _ _) = True"
| "is_publish _ = False"

text \<open>The events that touch the trust model or a sink.\<close>

definition is_pipeline :: "'v event \<Rightarrow> bool" where
  "is_pipeline e =
     (is_propagate_track e \<or> is_propagate_agent e \<or> is_model_call e \<or> is_publish e)"

definition publishes :: "'v event list \<Rightarrow> 'v event list" where
  "publishes evs = filter is_publish evs"

fun propagate_time :: "'v event \<Rightarrow> rat option" where
  "propagate_time (PropagateTrackTrust t) = Some t"
| "propagate_time (PropagateAgentTrust t) = Some t"
| "propagate_time _ = None"

text \<open>The timestamps handed to the two propagation calls, in the order of the calls.\<close>

definition propagated :: "'v event list \<Rightarrow> rat list" where
  "propagated evs = List.map_filter propagate_time evs"


subsection \<open>Batches that pass the two loops\<close>


subsection \<open>An example run\<close>

text \<open>
  A small concrete setting for evaluating the definitions: one agent, bridges that pass the
  payload on, a model whose state is the time it was last propagated to, and a transform
  buffer holding two poses of the agent (7 at 9 s, 99 at 12 s).
\<close>

definition example_bridge :: "(nat, rat) collaborators" where
  "example_bridge =
     \<lparr>tracks_to_avstack = (\<lambda>m. Inr (payload m)),
      polygon_to_avstack = (\<lambda>m. Inr (payload m)),
      position_to_avstack = (\<lambda>p h. Inr p),
      rostime_to_time = (\<lambda>s. Inr (of_int (sec s) + of_nat (nanosec s) / 1000000000)),
      psm_array_to_ros = (\<lambda>x. Inr (x + 100)),
      trust_array_to_ros = (\<lambda>x. Inr (x + 200)),
      publish = (\<lambda>s m. Inr ()),
      new_model = 0,
      model_reset = (\<lambda>m. 0),
      propagate_track_trust = (\<lambda>t m. (Inr (), t)),
      propagate_agent_trust = (\<lambda>t m. (Inr (), t)),
      model_call = (\<lambda>pa fa ta tcc m. (Inr (1, 2, 3, 4), m)),
      diagnostics = (\<lambda>m. Inr ''diagnostics''),
      assign_diagnostics = (\<lambda>m. Inr ''assign diagnostics'')\<rparr>"

definition example_buffer :: "nat tf_buffer" where
  "example_buffer target source t =
     (if t = Time0 \<or> 12 \<le> sec t then
        Inr \<lparr>tf_header = \<lparr>frame_id = target, stamp = \<lparr>sec = 12, nanosec = 0\<rparr>\<rparr>,
             translation = 99\<rparr>
      else if 9 \<le> sec t then
        Inr \<lparr>tf_header = \<lparr>frame_id = target, stamp = \<lparr>sec = 9, nanosec = 0\<rparr>\<rparr>,
             translation = 7\<rparr>
      else Inl (Raised ''ExtrapolationException''))"

definition example_msg :: "string \<Rightarrow> int \<Rightarrow> nat \<Rightarrow> nat \<Rightarrow> nat msg" where
  "example_msg frame s ns p =
     \<lparr>header = \<lparr>frame_id = frame, stamp = \<lparr>sec = s, nanosec = ns\<rparr>\<rparr>, payload = p\<rparr>"

definition example_node :: "bool \<Rightarrow> (nat, rat) node" where
  "example_node vb = init example_bridge vb (Some 1) example_buffer"

text \<open>The same collaborators with a trust computation that raises.\<close>

definition example_failing_bridge :: "(nat, rat) collaborators" where
  "example_failing_bridge =
     example_bridge\<lparr>model_call := (\<lambda>pa fa ta tcc m. (Inl (Raised ''ValueError''), m))\<rparr>"

text \<open>The same collaborators with a track-PSM publisher that raises.\<close>

definition example_failing_sink :: "(nat, rat) collaborators" where
  "example_failing_sink =
     example_bridge\<lparr>publish :=
       (\<lambda>s m. if s = TrackPsms then Inl (Raised ''RCLError'') else Inr ())\<rparr>"

text \<open>The same collaborators with diagnostics that cannot be read.\<close>

definition example_broken_diagnostics :: "(nat, rat) collaborators" where
  "example_broken_diagnostics =
     example_bridge\<lparr>diagnostics := (\<lambda>m. Inl (Raised ''AttributeError''))\<rparr>"

text \<open>The same node before any transform has arrived: every lookup raises.\<close>

definition example_lost_node :: "(nat, rat) node" where
  "example_lost_node =
     init example_bridge False (Some 1) (\<lambda>target source t. Inl (Raised ''LookupException''))"


definition example_batch :: "int \<Rightarrow> nat msg list" where
  "example_batch s =
     [example_msg ''world'' s 20000000 11, example_msg ''world'' s 0 12,
      example_msg ''world'' s 10000000 13]"


section \<open>Properties\<close>

subsection \<open>Slices, dictionaries and the two loops\<close>

lemma py_slice_tracks:
  "0 \<le> n \<Longrightarrow> py_slice args 0 (n + 1) = take (Suc (nat n)) args"
  by (auto simp: py_slice_def slice_index_def Let_def nat_add_distrib min_def)

lemma py_slice_fovs:
  "0 \<le> n \<Longrightarrow> py_slice args (n + 1) (2 * n + 1) = take (nat n) (drop (Suc (nat n)) args)"
  by (auto simp: py_slice_def slice_index_def Let_def nat_add_distrib nat_mult_distrib min_def)

lemma dict_set_fresh:
  "k \<notin> fst ` set d \<Longrightarrow> dict_set d k v = d @ [(k, v)]"
  unfolding dict_set_def by (induction d) auto

lemma store_tracks_append:
  "store_tracks E n (xs @ ys) ta cc =
     (case store_tracks E n xs ta cc of
        Inl e \<Rightarrow> Inl e
      | Inr (ta', cc') \<Rightarrow> store_tracks E n ys ta' cc')"
proof (induction xs arbitrary: ta cc)
  case Nil
  then show ?case by simp
next
  case (Cons x xs)
  obtain i m where x: "x = (i, m)" by (cases x)
  show ?case unfolding x by (simp add: Cons.IH split: sum.splits)
qed





lemma store_tracks_agents:
  assumes "store_tracks E n (enumerate k xs) ta cc = Inr (ta', cc')"
    and "int (k + length xs) \<le> n" and "map fst ta = [0..<k]"
  shows "cc' = cc \<and> (\<exists>ts. ta' = ta @ zip [k..<k + length xs] ts \<and>
            map (tracks_to_avstack E) xs = map Inr ts)"
  using assms
proof (induction xs arbitrary: k ta)
  case Nil
  then show ?case by simp
next
  case (Cons m xs)
  from Cons.prems obtain t where t: "tracks_to_avstack E m = Inr t"
    and rest: "store_tracks E n (enumerate (Suc k) xs) (dict_set ta k t) cc = Inr (ta', cc')"
    by (auto split: if_splits sum.splits)
  have fresh: "dict_set ta k t = ta @ [(k, t)]"
    using Cons.prems(3) by (intro dict_set_fresh) (metis atLeastLessThan_iff less_irrefl set_map set_upt)
  have "cc' = cc \<and> (\<exists>ts. ta' = (ta @ [(k, t)]) @ zip [Suc k..<Suc k + length xs] ts \<and>
            map (tracks_to_avstack E) xs = map Inr ts)"
    using rest Cons.prems(2,3) unfolding fresh by (intro Cons.IH) auto
  then obtain ts where "cc' = cc" "ta' = (ta @ [(k, t)]) @ zip [Suc k..<Suc k + length xs] ts"
    "map (tracks_to_avstack E) xs = map Inr ts" by blast
  moreover have up: "[k..<k + length (m # xs)] = k # [Suc k..<Suc k + length xs]"
    using upt_conv_Cons[of k "k + Suc (length xs)"] by simp
  ultimately have "ta' = ta @ zip [k..<k + length (m # xs)] (t # ts) \<and>
      map (tracks_to_avstack E) (m # xs) = map Inr (t # ts)"
    using t by simp
  with \<open>cc' = cc\<close> show ?case by blast
qed

lemma store_tracks_partition:
  assumes n: "0 \<le> n"
    and run: "store_tracks E n (enumerate 0 (py_slice args 0 (n + 1))) [] None = Inr (ta, cc)"
  shows "\<exists>ts. ta = zip [0..<min (nat n) (length args)] ts \<and>
           map (tracks_to_avstack E) (take (nat n) args) = map Inr ts \<and>
           (if nat n < length args
            then \<exists>t. tracks_to_avstack E (args ! nat n) = Inr t \<and> cc = Some (args ! nat n, t)
            else cc = None)"
proof (cases "nat n < length args")
  case True
  have sl: "enumerate 0 (py_slice args 0 (n + 1)) =
      enumerate 0 (take (nat n) args) @ [(nat n, args ! nat n)]"
    using True n by (simp add: py_slice_tracks take_Suc_conv_app_nth enumerate_append_eq min_def)
  from run obtain ta1 cc1 where
    one: "store_tracks E n (enumerate 0 (take (nat n) args)) [] None = Inr (ta1, cc1)"
    and two: "store_tracks E n [(nat n, args ! nat n)] ta1 cc1 = Inr (ta, cc)"
    unfolding sl store_tracks_append by (auto split: sum.splits)
  have "cc1 = None \<and> (\<exists>ts. ta1 = [] @ zip [0..<0 + length (take (nat n) args)] ts \<and>
            map (tracks_to_avstack E) (take (nat n) args) = map Inr ts)"
    using one n True by (intro store_tracks_agents) auto
  moreover from two n have "ta = ta1 \<and> (\<exists>t. tracks_to_avstack E (args ! nat n) = Inr t \<and>
      cc = Some (args ! nat n, t))"
    by (auto split: sum.splits if_splits)
  ultimately show ?thesis using True by (auto simp: min_def)
next
  case False
  have sl: "enumerate 0 (py_slice args 0 (n + 1)) = enumerate 0 args"
    using False n by (simp add: py_slice_tracks)
  have "cc = None \<and> (\<exists>ts. ta = [] @ zip [0..<0 + length args] ts \<and>
            map (tracks_to_avstack E) args = map Inr ts)"
    using run n False unfolding sl by (intro store_tracks_agents) auto
  then show ?thesis using False by (auto simp: min_def)
qed

lemma store_fovs_agents:
  assumes "store_fovs E buf (enumerate k xs) fa pa = (Inr (fa', pa'), evs)"
    and "map fst fa = [0..<k]" and "map fst pa = [0..<k]"
  shows "(\<exists>fs. fa' = fa @ zip [k..<k + length xs] fs \<and>
            map (polygon_to_avstack E) xs = map Inr fs) \<and>
         (\<exists>ps. pa' = pa @ zip [k..<k + length xs] ps \<and>
            map (lookup_pose E buf) [k..<k + length xs] = map Inr ps) \<and>
         evs = map (\<lambda>i. LookupTransform ''world'' (agent_frame i) Time0) [k..<k + length xs]"
  using assms
proof (induction xs arbitrary: k fa pa evs)
  case Nil
  then show ?case by simp
next
  case (Cons m xs)
  from Cons.prems(1) obtain f p evs1 where f: "polygon_to_avstack E m = Inr f"
    and p: "lookup_pose E buf k = Inr p"
    and rest: "store_fovs E buf (enumerate (Suc k) xs) (dict_set fa k f) (dict_set pa k p)
                 = (Inr (fa', pa'), evs1)"
    and evs: "evs = LookupTransform ''world'' (agent_frame k) Time0 # evs1"
    by (auto split: if_splits sum.splits prod.splits)
  have ff: "dict_set fa k f = fa @ [(k, f)]"
    using Cons.prems(2) by (intro dict_set_fresh) (metis atLeastLessThan_iff less_irrefl set_map set_upt)
  have fp: "dict_set pa k p = pa @ [(k, p)]"
    using Cons.prems(3) by (intro dict_set_fresh) (metis atLeastLessThan_iff less_irrefl set_map set_upt)
  have "(\<exists>fs. fa' = (fa @ [(k, f)]) @ zip [Suc k..<Suc k + length xs] fs \<and>
            map (polygon_to_avstack E) xs = map Inr fs) \<and>
         (\<exists>ps. pa' = (pa @ [(k, p)]) @ zip [Suc k..<Suc k + length xs] ps \<and>
            map (lookup_pose E buf) [Suc k..<Suc k + length xs] = map Inr ps) \<and>
         evs1 = map (\<lambda>i. LookupTransform ''world'' (agent_frame i) Time0) [Suc k..<Suc k + length xs]"
    using rest Cons.prems(2,3) unfolding ff fp by (intro Cons.IH) auto
  then obtain fs ps where "fa' = (fa @ [(k, f)]) @ zip [Suc k..<Suc k + length xs] fs"
     "map (polygon_to_avstack E) xs = map Inr fs"
     "pa' = (pa @ [(k, p)]) @ zip [Suc k..<Suc k + length xs] ps"
     "map (lookup_pose E buf) [Suc k..<Suc k + length xs] = map Inr ps"
     "evs1 = map (\<lambda>i. LookupTransform ''world'' (agent_frame i) Time0) [Suc k..<Suc k + length xs]"
    by blast
  moreover have up: "[k..<k + length (m # xs)] = k # [Suc k..<Suc k + length xs]"
    using upt_conv_Cons[of k "k + Suc (length xs)"] by simp
  ultimately have "fa' = fa @ zip [k..<k + length (m # xs)] (f # fs) \<and>
      map (polygon_to_avstack E) (m # xs) = map Inr (f # fs)"
    and "pa' = pa @ zip [k..<k + length (m # xs)] (p # ps) \<and>
      map (lookup_pose E buf) [k..<k + length (m # xs)] = map Inr (p # ps)"
    and "evs = map (\<lambda>i. LookupTransform ''world'' (agent_frame i) Time0) [k..<k + length (m # xs)]"
    using f p evs by simp_all
  then show ?case by blast
qed




subsection \<open>The shape of a run\<close>

lemma log_diagnostics_logs:
  "log_diagnostics E vb m = (r, evs) \<Longrightarrow> \<forall>e\<in>set evs. is_log e"
  by (auto simp: log_diagnostics_def split: if_splits sum.splits)

lemma log_diagnostics_quiet: "log_diagnostics E False m = (None, [])"
  by (simp add: log_diagnostics_def)

lemma store_fovs_lookups:
  "store_fovs E buf xs fa pa = (r, evs) \<Longrightarrow> \<forall>e\<in>set evs. is_lookup e"
proof (induction xs arbitrary: fa pa r evs)
  case Nil
  then show ?case by simp
next
  case (Cons x xs)
  obtain i m where x: "x = (i, m)" by (cases x)
  from Cons.prems show ?case
    unfolding x
    by (auto split: sum.splits if_splits prod.splits) (use Cons.IH in blast)
qed

lemma store_fovs_lookup_form:
  "store_fovs E buf xs fa pa = (r, evs) \<Longrightarrow>
     set evs \<subseteq> range (\<lambda>i. LookupTransform ''world'' (agent_frame i) Time0)"
proof (induction xs arbitrary: fa pa r evs)
  case Nil
  then show ?case by simp
next
  case (Cons x xs)
  obtain i m where x: "x = (i, m)" by (cases x)
  show ?case
  proof (cases "polygon_to_avstack E m")
    case (Inl e)
    with Cons.prems x show ?thesis by auto
  next
    case f: (Inr f)
    show ?thesis
    proof (cases "frame_id (header m) = ''world''")
      case False
      with Cons.prems x f show ?thesis by auto
    next
      case True
      show ?thesis
      proof (cases "lookup_pose E buf i")
        case (Inl e)
        with Cons.prems x f True show ?thesis by auto
      next
        case (Inr p)
        obtain r' evs' where rest:
          "store_fovs E buf xs (dict_set fa i f) (dict_set pa i p) = (r', evs')"
          by (cases "store_fovs E buf xs (dict_set fa i f) (dict_set pa i p)")
        with Cons.prems x f True Inr
        have "evs = LookupTransform ''world'' (agent_frame i) Time0 # evs'" by auto
        with Cons.IH[OF rest] show ?thesis by auto
      qed
    qed
  qed
qed

lemma received_log_logs: "\<forall>e\<in>set (received_log vb args). is_log e"
  by (simp add: received_log_def)

lemma propagate_and_run_elim [consumes 1, case_names no_time raised computed]:
  assumes "propagate_and_run E vb m pa fa ta ccm tcc = (r, m', evs)"
  obtains
    (no_time) "r \<noteq> None" "evs = []" "m' = m"
      "isl (rostime_to_time E (stamp (header ccm)))"
  | (raised) t where "rostime_to_time E (stamp (header ccm)) = Inr t" "r \<noteq> None"
      "evs = [PropagateTrackTrust t] \<or> evs = [PropagateTrackTrust t, PropagateAgentTrust t]"
      "(evs = [PropagateTrackTrust t] \<and> isl (fst (propagate_track_trust E t m))) \<or>
       (evs = [PropagateTrackTrust t, PropagateAgentTrust t] \<and>
        (\<exists>m1. propagate_track_trust E t m = (Inr (), m1) \<and>
           isl (fst (propagate_agent_trust E t m1))))"
  | (computed) t m1 m2 res pub where "rostime_to_time E (stamp (header ccm)) = Inr t"
      "propagate_track_trust E t m = (Inr (), m1)"
      "propagate_agent_trust E t m1 = (Inr (), m2)"
      "model_call E pa fa ta tcc m2 = (res, m')"
      "evs = [PropagateTrackTrust t, PropagateAgentTrust t, ModelCall pa fa ta tcc] @ pub"
      "case res of Inl e \<Rightarrow> r = Some e \<and> pub = []
                 | Inr out \<Rightarrow> publish_outputs E vb m' out = (r, pub)"
  using assms
  by (auto simp: propagate_and_run_def split: prod.splits sum.splits)

lemma trks_fov_receive_elim [consumes 1, case_names aborted propagating computed]:
  assumes run: "trks_fov_receive E self args = (r, self', evs)"
  obtains
    (aborted) lk where "r \<noteq> None" "self' = self"
      "evs = received_log (verbose self) args @ lk" "\<forall>e\<in>set lk. is_lookup e"
      "set lk \<subseteq> range (\<lambda>i. LookupTransform ''world'' (agent_frame i) Time0)"
  | (propagating) lk ta ccm tcc fa pa t tail where
      "store_tracks E (n_agents self)
         (enumerate 0 (py_slice args 0 (n_agents self + 1))) [] None = Inr (ta, Some (ccm, tcc))"
      "store_fovs E (tf_buffer self)
         (enumerate 0 (py_slice args (n_agents self + 1) (2 * n_agents self + 1))) [] []
         = (Inr (fa, pa), lk)"
      "rostime_to_time E (stamp (header ccm)) = Inr t"
      "r \<noteq> None" "self' = self\<lparr>model := model self'\<rparr>"
      "evs = received_log (verbose self) args @ lk @ tail"
      "tail = [PropagateTrackTrust t] \<or> tail = [PropagateTrackTrust t, PropagateAgentTrust t]"
  | (computed) lk ta ccm tcc fa pa t m1 m2 res pub where
      "store_tracks E (n_agents self)
         (enumerate 0 (py_slice args 0 (n_agents self + 1))) [] None = Inr (ta, Some (ccm, tcc))"
      "store_fovs E (tf_buffer self)
         (enumerate 0 (py_slice args (n_agents self + 1) (2 * n_agents self + 1))) [] []
         = (Inr (fa, pa), lk)"
      "rostime_to_time E (stamp (header ccm)) = Inr t"
      "propagate_track_trust E t (model self) = (Inr (), m1)"
      "propagate_agent_trust E t m1 = (Inr (), m2)"
      "model_call E pa fa ta tcc m2 = (res, model self')"
      "self' = self\<lparr>model := model self'\<rparr>"
      "evs = received_log (verbose self) args @ lk @
             [PropagateTrackTrust t, PropagateAgentTrust t, ModelCall pa fa ta tcc] @ pub"
      "case res of Inl e \<Rightarrow> r = Some e \<and> pub = []
                 | Inr out \<Rightarrow> publish_outputs E (verbose self) (model self') out = (r, pub)"
proof (cases "store_tracks E (n_agents self)
            (enumerate 0 (py_slice args 0 (n_agents self + 1))) [] None")
  case (Inl e)
  with run show ?thesis
    by (intro aborted[of "[]"]) (auto simp: trks_fov_receive_def Let_def)
next
  case (Inr res)
  obtain ta cc where res: "res = (ta, cc)" by (cases res)
  obtain rf lk where fovs: "store_fovs E (tf_buffer self)
      (enumerate 0 (py_slice args (n_agents self + 1) (2 * n_agents self + 1))) [] [] = (rf, lk)"
    by (cases "store_fovs E (tf_buffer self)
      (enumerate 0 (py_slice args (n_agents self + 1) (2 * n_agents self + 1))) [] []")
  have lk: "\<forall>e\<in>set lk. is_lookup e"
    "set lk \<subseteq> range (\<lambda>i. LookupTransform ''world'' (agent_frame i) Time0)"
    using fovs by (rule store_fovs_lookups, rule store_fovs_lookup_form)
  show ?thesis
  proof (cases rf)
    case (Inl e)
    with run Inr res fovs lk show ?thesis
      by (intro aborted[of lk]) (auto simp: trks_fov_receive_def Let_def)
  next
    case rf: (Inr fp)
    obtain fa pa where fp: "fp = (fa, pa)" by (cases fp)
    show ?thesis
    proof (cases cc)
      case None
      with run Inr res fovs lk rf fp show ?thesis
        by (intro aborted[of lk]) (auto simp: trks_fov_receive_def Let_def)
    next
      case (Some c)
      obtain ccm tcc where c: "c = (ccm, tcc)" by (cases c)
      obtain r' m' tail where pr: "propagate_and_run E (verbose self) (model self) pa fa ta ccm tcc
            = (r', m', tail)"
        by (cases "propagate_and_run E (verbose self) (model self) pa fa ta ccm tcc")
      from run Inr res fovs rf fp Some c pr
      have eq: "r' = r" "self' = self\<lparr>model := m'\<rparr>"
        "evs = received_log (verbose self) args @ lk @ tail"
        by (auto simp: trks_fov_receive_def Let_def)
      then have m': "m' = model self'" by simp
      note st = Inr[unfolded res Some c] and sf = fovs[unfolded rf fp]
      from pr show ?thesis
      proof (cases rule: propagate_and_run_elim)
        case no_time
        with eq lk show ?thesis by (intro aborted[of lk]) auto
      next
        case (raised t)
        with eq st sf m' show ?thesis by (intro propagating[of ta ccm tcc fa pa lk t tail]) auto
      next
        case (computed t m1 m2 res pub)
        with eq st sf m' show ?thesis
          by (intro that(3)[of ta ccm tcc fa pa lk t m1 m2 res pub]) auto
      qed
    qed
  qed
qed

subsection \<open>The events of a run\<close>

lemma convert_outputs_Inr:
  "convert_outputs E (trust_agents, trust_tracks, psms_agents, psms_tracks) = Inr (a, b, c, d) \<longleftrightarrow>
     psm_array_to_ros E psms_agents = Inr a \<and> psm_array_to_ros E psms_tracks = Inr b \<and>
     trust_array_to_ros E trust_agents = Inr c \<and> trust_array_to_ros E trust_tracks = Inr d"
  by (auto simp: convert_outputs_def split: sum.splits)

lemma convert_outputs_Inl:
  "convert_outputs E (trust_agents, trust_tracks, psms_agents, psms_tracks) = Inl e \<Longrightarrow>
     psm_array_to_ros E psms_agents = Inl e \<or> psm_array_to_ros E psms_tracks = Inl e \<or>
     trust_array_to_ros E trust_agents = Inl e \<or> trust_array_to_ros E trust_tracks = Inl e"
  by (auto simp: convert_outputs_def split: sum.splits)

lemma publish_messages_prefix:
  assumes "publish_messages E (a, b, c, d) = (r, pubs)"
  shows "pubs = map (\<lambda>(s, m). Publish s m)
           (takeWhile (\<lambda>(s, m). \<not> isl (publish E s m))
              [(AgentPsms, a), (TrackPsms, b), (AgentTrust, c), (TrackTrust, d)])"
  using assms by (auto simp: publish_messages_def split: sum.splits)

lemma publish_messages_all:
  assumes "publish_messages E (a, b, c, d) = (r, pubs)"
  shows "r = None \<longleftrightarrow>
           pubs = [Publish AgentPsms a, Publish TrackPsms b, Publish AgentTrust c,
                   Publish TrackTrust d]"
  using assms by (auto simp: publish_messages_def split: sum.splits)

lemma publish_messages_returns:
  assumes "publish_messages E (a, b, c, d) = (r, pubs)"
  shows "r = None \<longleftrightarrow>
           \<not> isl (publish E AgentPsms a) \<and> \<not> isl (publish E TrackPsms b) \<and>
           \<not> isl (publish E AgentTrust c) \<and> \<not> isl (publish E TrackTrust d)"
  using assms by (auto simp: publish_messages_def split: sum.splits)

lemma publish_messages_events:
  assumes "publish_messages E msgs = (r, pubs)"
  shows "\<forall>e\<in>set pubs. is_publish e"
  using assms by (auto simp: publish_messages_def split: sum.splits prod.splits)

lemma publish_outputs_elim [consumes 1, case_names conversion_raised publish_raised published]:
  assumes "publish_outputs E vb m out = (r, evs)"
  obtains
    (conversion_raised) e where "convert_outputs E out = Inl e" "r = Some e" "evs = []"
  | (publish_raised) msgs e where "convert_outputs E out = Inr msgs"
      "publish_messages E msgs = (Some e, evs)" "r = Some e"
  | (published) msgs pubs logs where "convert_outputs E out = Inr msgs"
      "publish_messages E msgs = (None, pubs)" "log_diagnostics E vb m = (r, logs)"
      "evs = pubs @ logs"
  using assms
  by (auto simp: publish_outputs_def split: sum.splits prod.splits option.splits)

lemma not_pipeline_log_lookup: "is_log e \<or> is_lookup e \<Longrightarrow> \<not> is_pipeline e"
  by (cases e) (simp_all add: is_pipeline_def)

lemma publish_log_not_lookup: "is_publish e \<or> is_log e \<Longrightarrow> \<not> is_lookup e"
  by (cases e) simp_all

lemma quiet_prefix:
  assumes "\<forall>e\<in>set lk. is_lookup e"
  shows "\<forall>e\<in>set (received_log vb args @ lk). is_log e \<or> is_lookup e"
  using assms received_log_logs[of vb args] by auto

lemma filter_quiet:
  assumes "\<forall>e\<in>set pre. is_log e \<or> is_lookup e"
  shows "filter is_publish pre = []" "filter is_propagate_track pre = []"
    "filter is_propagate_agent pre = []" "filter is_model_call pre = []"
    "List.map_filter propagate_time pre = []"
  using assms
  by (induction pre; auto elim: is_log.elims is_lookup.elims)+

lemma propagated_append: "propagated (xs @ ys) = propagated xs @ propagated ys"
  by (simp add: propagated_def List.map_filter_def)

lemma publishes_append: "publishes (xs @ ys) = publishes xs @ publishes ys"
  by (simp add: publishes_def)

lemma propagated_quiet: "\<forall>e\<in>set pre. is_log e \<or> is_lookup e \<Longrightarrow> propagated pre = []"
  by (simp add: propagated_def filter_quiet)

lemma publishes_quiet: "\<forall>e\<in>set pre. is_log e \<or> is_lookup e \<Longrightarrow> publishes pre = []"
  by (simp add: publishes_def filter_quiet)

lemma propagated_logs: "\<forall>e\<in>set logs. is_log e \<Longrightarrow> propagated logs = []"
  by (simp add: propagated_quiet)

lemma publishes_logs: "\<forall>e\<in>set logs. is_log e \<Longrightarrow> publishes logs = []"
  by (simp add: publishes_quiet)

lemma command_center_item:
  assumes "0 \<le> n"
    and "store_tracks E n (enumerate 0 (py_slice args 0 (n + 1))) [] None = Inr (ta, Some (ccm, tcc))"
  shows "nat n < length args \<and> ccm = args ! nat n \<and> tracks_to_avstack E ccm = Inr tcc"
  using store_tracks_partition[OF assms] by (auto split: if_splits)

lemma publish_outputs_events:
  assumes "publish_outputs E vb m out = (r, pub)"
  shows "\<forall>e\<in>set pub. is_publish e \<or> is_log e"
  using assms
proof (cases rule: publish_outputs_elim)
  case (conversion_raised e)
  then show ?thesis by simp
next
  case (publish_raised msgs e)
  from publish_messages_events[OF publish_raised(2)] show ?thesis by simp
next
  case (published msgs pubs logs)
  from publish_messages_events[OF published(2)] log_diagnostics_logs[OF published(3)]
    published(4)
  show ?thesis by auto
qed

lemma after_model_call_events:
  assumes "case res of Inl e \<Rightarrow> r = Some e \<and> pub = []
                     | Inr out \<Rightarrow> publish_outputs E vb m out = (r, pub)"
  shows "\<forall>e\<in>set pub. is_publish e \<or> is_log e"
  using assms by (cases res) (auto dest: publish_outputs_events)

lemma pose_failure_stops_storing:
  assumes n: "0 \<le> n" and len: "length args = nat (2 * n + 1)"
    and i: "i < nat n" and fail: "isl (lookup_pose E buf i)"
    and sf: "store_fovs E buf (enumerate 0 (py_slice args (n + 1) (2 * n + 1))) [] []
               = (Inr (fa, pa), lk)"
  shows False
proof -
  have l: "length (take (nat n) (drop (Suc (nat n)) args)) = nat n"
    using len n by (simp add: nat_add_distrib nat_mult_distrib)
  from store_fovs_agents[OF sf[unfolded py_slice_fovs[OF n]]] obtain ps where
    "map (lookup_pose E buf) [0..<nat n] = map Inr ps"
    unfolding l by auto
  then have "lookup_pose E buf i = Inr (ps ! i)"
    using i by (metis add_0 length_map length_upt minus_nat.diff_0 nth_map nth_upt)
  with fail show False by simp
qed


lemma publishes_simps [simp]:
  "publishes [] = []"
  "publishes (e # es) = (if is_publish e then e # publishes es else publishes es)"
  by (simp_all add: publishes_def)

lemma propagated_simps [simp]:
  "propagated [] = []"
  "propagated (e # es) =
     (case propagate_time e of None \<Rightarrow> propagated es | Some t \<Rightarrow> t # propagated es)"
  by (simp_all add: propagated_def split: option.splits)

lemma publishes_four:
  "publishes ([Publish AgentPsms a, Publish TrackPsms b, Publish AgentTrust c,
      Publish TrackTrust d] @ logs) =
   [Publish AgentPsms a, Publish TrackPsms b, Publish AgentTrust c, Publish TrackTrust d]
     @ publishes logs"
  by (simp add: publishes_def)

lemma model_call_not_quiet:
  assumes "\<forall>e\<in>set pre. is_log e \<or> is_lookup e"
  shows "ModelCall pa fa ta tcc \<notin> set pre"
proof
  assume "ModelCall pa fa ta tcc \<in> set pre"
  with assms have "is_log (ModelCall pa fa ta tcc) \<or> is_lookup (ModelCall pa fa ta tcc)"
    by blast
  then show False by simp
qed

lemma model_call_not_published:
  assumes "\<forall>e\<in>set pub. is_publish e \<or> is_log e"
  shows "ModelCall pa fa ta tcc \<notin> set pub"
proof
  assume "ModelCall pa fa ta tcc \<in> set pub"
  with assms have "is_publish (ModelCall pa fa ta tcc) \<or> is_log (ModelCall pa fa ta tcc)"
    by blast
  then show False by simp
qed



lemma propagated_published:
  assumes "\<forall>e\<in>set pub. is_publish e \<or> is_log e"
  shows "propagated pub = []"
  using assms
  by (induction pub) (auto elim: is_log.elims is_publish.elims)







subsection \<open>What the model call receives\<close>

lemma model_call_in_run:
  assumes run: "trks_fov_receive E self args = (r, self', evs)"
    and mc: "ModelCall pa fa ta tcc \<in> set evs"
  shows "\<exists>ccm lk.
      store_tracks E (n_agents self)
         (enumerate 0 (py_slice args 0 (n_agents self + 1))) [] None = Inr (ta, Some (ccm, tcc)) \<and>
      store_fovs E (tf_buffer self)
         (enumerate 0 (py_slice args (n_agents self + 1) (2 * n_agents self + 1))) [] []
         = (Inr (fa, pa), lk) \<and>
      filter is_lookup evs = lk"
  using run
proof (cases rule: trks_fov_receive_elim)
  case (aborted lk)
  have "\<forall>e\<in>set evs. is_log e \<or> is_lookup e"
    unfolding aborted(3) using aborted(4) by (rule quiet_prefix)
  from model_call_not_quiet[OF this] mc show ?thesis by blast
next
  case (propagating lk ta' ccm tcc' fa' pa' t tail)
  define pre where "pre = received_log (verbose self) args @ lk"
  have q: "\<forall>e\<in>set pre. is_log e \<or> is_lookup e"
    unfolding pre_def using propagating(2) by (intro quiet_prefix) (rule store_fovs_lookups)
  have "ModelCall pa fa ta tcc \<notin> set tail"
    using propagating(7) by auto
  moreover have "evs = pre @ tail" using propagating(6) by (simp add: pre_def)
  ultimately show ?thesis using mc model_call_not_quiet[OF q, of pa fa ta tcc] by simp
next
  case (computed lk ta' ccm tcc' fa' pa' t m1 m2 res pub)
  define pre where "pre = received_log (verbose self) args @ lk"
  have q: "\<forall>e\<in>set pre. is_log e \<or> is_lookup e"
    unfolding pre_def using computed(2) by (intro quiet_prefix) (rule store_fovs_lookups)
  have pubev: "\<forall>e\<in>set pub. is_publish e \<or> is_log e"
    using computed(9) by (rule after_model_call_events)
  have ev: "evs = pre @ [PropagateTrackTrust t, PropagateAgentTrust t,
      ModelCall pa' fa' ta' tcc'] @ pub"
    using computed(8) by (simp add: pre_def)
  from mc model_call_not_quiet[OF q, of pa fa ta tcc]
    model_call_not_published[OF pubev, of pa fa ta tcc]
  have same: "pa' = pa" "fa' = fa" "ta' = ta" "tcc' = tcc"
    unfolding ev by simp_all
  have lkl: "filter is_lookup lk = lk"
    using store_fovs_lookups[OF computed(2)] by simp
  have "filter is_lookup (received_log (verbose self) args) = []"
    by (simp add: received_log_def)
  moreover have "filter is_lookup pub = []"
    using pubev publish_log_not_lookup by (auto simp: filter_empty_conv)
  ultimately have "filter is_lookup evs = lk"
    using computed(8) lkl by simp
  with computed(1,2) same show ?thesis by blast
qed

lemma init_inputs:
  assumes "0 \<le> N"
  shows "inputs (synchronizer_trks (init E vb (Some N) buf)) =
       map (\<lambda>i. Subscriber BoxTrackArray (''/agent'' @ str_nat i @ ''/tracks_3d'')) [0..<nat N] @
       [Subscriber BoxTrackArray ''/command_center/tracks_3d''] @
       map (\<lambda>i. Subscriber PolygonStamped (''/agent'' @ str_nat i @ ''/fov'')) [0..<nat N]"
proof -
  have "CommandCenter \<notin> fst ` set (map (\<lambda>agent_ID. (AgentID agent_ID,
        Subscriber BoxTrackArray (''/agent'' @ str_nat agent_ID @ ''/tracks_3d''))) (py_range N))"
    by auto
  from dict_set_fresh[OF this] show ?thesis
    by (simp add: init_def Let_def dict_values_def py_range_def comp_def)
qed


lemma callback_partition:
  assumes n: "0 \<le> n_agents self" and len: "length args = 2 * nat (n_agents self) + 1"
    and run: "trks_fov_receive E self args = (r, self', evs)"
    and mc: "ModelCall pa fa ta tcc \<in> set evs"
  shows "map fst ta = [0..<nat (n_agents self)] \<and>
         map (tracks_to_avstack E) (take (nat (n_agents self)) args) = map Inr (map snd ta) \<and>
         tracks_to_avstack E (args ! nat (n_agents self)) = Inr tcc \<and>
         map fst fa = [0..<nat (n_agents self)] \<and>
         map (polygon_to_avstack E) (drop (Suc (nat (n_agents self))) args)
           = map Inr (map snd fa) \<and>
         map fst pa = [0..<nat (n_agents self)] \<and>
         map (lookup_pose E (tf_buffer self)) [0..<nat (n_agents self)] = map Inr (map snd pa) \<and>
         filter is_lookup evs =
           map (\<lambda>i. LookupTransform ''world'' (agent_frame i) Time0) [0..<nat (n_agents self)]"
proof -
  define N where "N = nat (n_agents self)"
  from model_call_in_run[OF run mc] obtain ccm lk where
    st: "store_tracks E (n_agents self)
         (enumerate 0 (py_slice args 0 (n_agents self + 1))) [] None = Inr (ta, Some (ccm, tcc))"
    and sf: "store_fovs E (tf_buffer self)
         (enumerate 0 (py_slice args (n_agents self + 1) (2 * n_agents self + 1))) [] []
         = (Inr (fa, pa), lk)"
    and lk: "filter is_lookup evs = lk"
    by blast
  have lt: "N < length args" using len by (simp add: N_def)
  from store_tracks_partition[OF n st] obtain ts where
    ta: "ta = zip [0..<min N (length args)] ts"
    and ts: "map (tracks_to_avstack E) (take N args) = map Inr ts"
    and cc: "tracks_to_avstack E (args ! N) = Inr tcc"
    using lt unfolding N_def by auto
  from ts have lts: "length ts = N"
    using lt by (metis length_map length_take min.absorb4 min.commute)
  have m: "min N (length args) = N" using lt by simp
  have tracks: "map fst ta = [0..<N]" "map snd ta = ts"
    unfolding ta m using lts by simp_all
  have dr: "take N (drop (Suc N) args) = drop (Suc N) args"
    using len by (simp add: N_def)
  have ldr: "length (drop (Suc N) args) = N"
    using len by (simp add: N_def)
  from store_fovs_agents[OF sf[unfolded py_slice_fovs[OF n], folded N_def, unfolded dr]]
  obtain fs ps where
    fa: "fa = zip [0..<N] fs" and fs: "map (polygon_to_avstack E) (drop (Suc N) args) = map Inr fs"
    and pa: "pa = zip [0..<N] ps" and ps: "map (lookup_pose E (tf_buffer self)) [0..<N] = map Inr ps"
    and lk': "lk = map (\<lambda>i. LookupTransform ''world'' (agent_frame i) Time0) [0..<N]"
    unfolding ldr by auto
  from fs have lfs: "length fs = N" using ldr by (metis length_map)
  from ps have lps: "length ps = N" by (metis length_map length_upt minus_nat.diff_0)
  have fovs: "map fst fa = [0..<N]" "map snd fa = fs"
    unfolding fa using lfs by simp_all
  have poses: "map fst pa = [0..<N]" "map snd pa = ps"
    unfolding pa using lps by simp_all
  show ?thesis
    using tracks ts cc fovs fs poses ps lk lk' unfolding N_def by simp
qed


lemma lookups_ask_latest:
  assumes run: "trks_fov_receive E self args = (r, self', evs)"
    and e: "e \<in> set evs" and l: "is_lookup e"
  shows "\<exists>i. e = LookupTransform ''world'' (agent_frame i) Time0"
proof -
  have key: "\<exists>i. e = LookupTransform ''world'' (agent_frame i) Time0"
    if ev: "evs = received_log (verbose self) args @ lk @ tail"
      and lk: "set lk \<subseteq> range (\<lambda>i. LookupTransform ''world'' (agent_frame i) Time0)"
      and tail: "\<forall>e\<in>set tail. \<not> is_lookup e" for lk tail
  proof -
    from received_log_logs[of "verbose self" args] l
    have "e \<notin> set (received_log (verbose self) args)"
      by (cases e) auto
    moreover from tail l have "e \<notin> set tail" by blast
    ultimately have "e \<in> set lk" using e ev by simp
    with lk show ?thesis by blast
  qed
  from run show ?thesis
  proof (cases rule: trks_fov_receive_elim)
    case (aborted lk)
    from key[of lk "[]"] aborted(3,5) show ?thesis by simp
  next
    case (propagating lk ta ccm tcc fa pa t tail)
    have "\<forall>e\<in>set tail. \<not> is_lookup e" using propagating(7) by auto
    with key[of lk tail] propagating(6) store_fovs_lookup_form[OF propagating(2)]
    show ?thesis by simp
  next
    case (computed lk ta ccm tcc fa pa t m1 m2 res pub)
    have "\<forall>e\<in>set ([PropagateTrackTrust t, PropagateAgentTrust t,
        ModelCall pa fa ta tcc] @ pub). \<not> is_lookup e"
      using after_model_call_events[OF computed(9)] publish_log_not_lookup by auto
    with key[of lk "[PropagateTrackTrust t, PropagateAgentTrust t,
        ModelCall pa fa ta tcc] @ pub"] computed(8) store_fovs_lookup_form[OF computed(2)]
    show ?thesis by simp
  qed
qed


lemma propagated_command_center:
  assumes n: "0 \<le> n_agents self"
    and run: "trks_fov_receive E self args = (r, self', evs)"
    and t: "t \<in> set (propagated evs)"
  shows "nat (n_agents self) < length args \<and>
         rostime_to_time E (stamp (header (args ! nat (n_agents self)))) = Inr t"
  using run
proof (cases rule: trks_fov_receive_elim)
  case (aborted lk)
  have "propagated evs = []"
    unfolding aborted(3) using aborted(4) by (intro propagated_quiet quiet_prefix)
  with t show ?thesis by simp
next
  case (propagating lk ta ccm tcc fa pa t' tail)
  have "propagated (received_log (verbose self) args @ lk) = []"
    using propagating(2) by (intro propagated_quiet quiet_prefix) (rule store_fovs_lookups)
  with t propagating(6,7) have "t = t'"
    by (auto simp: propagated_append)
  with command_center_item[OF n propagating(1)] propagating(3) show ?thesis by simp
next
  case (computed lk ta ccm tcc fa pa t' m1 m2 res pub)
  have pre: "propagated (received_log (verbose self) args @ lk) = []"
    using computed(2) by (intro propagated_quiet quiet_prefix) (rule store_fovs_lookups)
  have "propagated pub = []"
    using after_model_call_events[OF computed(9)] by (rule propagated_published)
  with t pre computed(8) have "t = t'"
    by (auto simp: propagated_append)
  with command_center_item[OF n computed(1)] computed(3) show ?thesis by simp
qed

subsection \<open>Frames, and batches in sequence\<close>









lemma publishes_published:
  assumes "\<forall>e\<in>set pubs. is_publish e"
  shows "publishes pubs = pubs"
  using assms by (simp add: publishes_def)

lemma publish_messages_short:
  assumes "publish_messages E msgs = (Some e, pubs)"
  shows "length pubs < 4"
  using assms by (auto simp: publish_messages_def split: sum.splits prod.splits)

subsection \<open>The verbose flag\<close>

lemma publish_outputs_verbose:
  assumes quiet: "publish_outputs E False m out = (r0, e0)"
    and loud: "publish_outputs E True m out = (r1, e1)"
  shows "e1 = e0 @ (if r0 = None then snd (log_diagnostics E True m) else []) \<and>
         r1 = (if r0 = None then fst (log_diagnostics E True m) else r0) \<and>
         (r0 = None \<longrightarrow>
            (\<exists>a b c d. e0 = [Publish AgentPsms a, Publish TrackPsms b, Publish AgentTrust c,
               Publish TrackTrust d]))"
proof (cases "convert_outputs E out")
  case (Inl e)
  with quiet loud show ?thesis by (auto simp: publish_outputs_def)
next
  case (Inr msgs)
  obtain a b c d where msgs: "msgs = (a, b, c, d)" by (cases msgs)
  obtain rp pubs where pm: "publish_messages E (a, b, c, d) = (rp, pubs)"
    by (cases "publish_messages E (a, b, c, d)")
  show ?thesis
  proof (cases rp)
    case (Some e)
    with quiet loud Inr msgs pm show ?thesis by (auto simp: publish_outputs_def)
  next
    case None
    with publish_messages_all[OF pm]
    have pubs: "pubs = [Publish AgentPsms a, Publish TrackPsms b, Publish AgentTrust c,
        Publish TrackTrust d]"
      by simp
    obtain r logs where ld: "log_diagnostics E True m = (r, logs)"
      by (cases "log_diagnostics E True m")
    from quiet loud Inr msgs pm None ld
    have "r0 = None" "e0 = pubs" "r1 = r" "e1 = pubs @ logs"
      by (simp_all add: publish_outputs_def log_diagnostics_quiet)
    with pubs ld show ?thesis by simp
  qed
qed

lemma propagate_and_run_verbose:
  assumes quiet: "propagate_and_run E False m pa fa ta ccm tcc = (r0, m0, e0)"
    and loud: "propagate_and_run E True m pa fa ta ccm tcc = (r1, m1, e1)"
  shows "m1 = m0 \<and>
         e1 = e0 @ (if r0 = None then snd (log_diagnostics E True m0) else []) \<and>
         r1 = (if r0 = None then fst (log_diagnostics E True m0) else r0) \<and>
         (r0 = None \<longrightarrow>
            (\<exists>pre a b c d. e0 = pre @ [Publish AgentPsms a, Publish TrackPsms b,
               Publish AgentTrust c, Publish TrackTrust d]))"
proof (cases "rostime_to_time E (stamp (header ccm))")
  case (Inl e)
  with assms show ?thesis by (auto simp: propagate_and_run_def)
next
  case (Inr t)
  obtain x1 k1 where p1: "propagate_track_trust E t m = (x1, k1)"
    by (cases "propagate_track_trust E t m")
  show ?thesis
  proof (cases x1)
    case (Inl e)
    with assms Inr p1 show ?thesis by (auto simp: propagate_and_run_def)
  next
    case x1: (Inr u)
    obtain x2 k2 where p2: "propagate_agent_trust E t k1 = (x2, k2)"
      by (cases "propagate_agent_trust E t k1")
    show ?thesis
    proof (cases x2)
      case (Inl e)
      with assms Inr p1 x1 p2 show ?thesis by (auto simp: propagate_and_run_def)
    next
      case x2: (Inr u2)
      obtain x3 k3 where p3: "model_call E pa fa ta tcc k2 = (x3, k3)"
        by (cases "model_call E pa fa ta tcc k2")
      show ?thesis
      proof (cases x3)
        case (Inl e)
        with assms Inr p1 x1 p2 x2 p3 show ?thesis by (auto simp: propagate_and_run_def)
      next
        case x3: (Inr out)
        obtain q0 f0 where o0: "publish_outputs E False k3 out = (q0, f0)"
          by (cases "publish_outputs E False k3 out")
        obtain q1 f1 where o1: "publish_outputs E True k3 out = (q1, f1)"
          by (cases "publish_outputs E True k3 out")
        from assms Inr p1 x1 p2 x2 p3 x3 o0 o1
        have eq: "r0 = q0" "r1 = q1" "m0 = k3" "m1 = k3"
          "e0 = [PropagateTrackTrust t, PropagateAgentTrust t, ModelCall pa fa ta tcc] @ f0"
          "e1 = [PropagateTrackTrust t, PropagateAgentTrust t, ModelCall pa fa ta tcc] @ f1"
          by (simp_all add: propagate_and_run_def)
        note v = publish_outputs_verbose[OF o0 o1]
        have "r0 = None \<longrightarrow>
            (\<exists>pre a b c d. e0 = pre @ [Publish AgentPsms a, Publish TrackPsms b,
               Publish AgentTrust c, Publish TrackTrust d])"
        proof
          assume "r0 = None"
          with v eq(1) obtain a b c d where
            f0: "f0 = [Publish AgentPsms a, Publish TrackPsms b, Publish AgentTrust c,
               Publish TrackTrust d]"
            by (elim conjE impE exE) simp_all
          show "\<exists>pre a b c d. e0 = pre @ [Publish AgentPsms a, Publish TrackPsms b,
               Publish AgentTrust c, Publish TrackTrust d]"
            unfolding eq(5) f0
            by (intro exI[of _ "[PropagateTrackTrust t, PropagateAgentTrust t,
                ModelCall pa fa ta tcc]"] exI[of _ a] exI[of _ b] exI[of _ c] exI[of _ d]) simp
        qed
        moreover from v have "f1 = f0 @ (if q0 = None then snd (log_diagnostics E True k3) else [])"
          and "q1 = (if q0 = None then fst (log_diagnostics E True k3) else q0)"
          by simp_all
        ultimately show ?thesis using eq by simp
      qed
    qed
  qed
qed

lemma received_log_quiet [simp]: "received_log False args = []"
  by (simp add: received_log_def)

lemma verbose_run:
  assumes quiet: "trks_fov_receive E (self\<lparr>verbose := False\<rparr>) args = (r0, s0, evs0)"
    and loud: "trks_fov_receive E (self\<lparr>verbose := True\<rparr>) args = (r1, s1, evs1)"
  shows "model s1 = model s0 \<and>
         evs1 = received_log True args @ evs0 @
           (if r0 = None then snd (log_diagnostics E True (model s0)) else []) \<and>
         r1 = (if r0 = None then fst (log_diagnostics E True (model s0)) else r0) \<and>
         (r0 = None \<longrightarrow>
            (\<exists>pre a b c d. evs0 = pre @ [Publish AgentPsms a, Publish TrackPsms b,
               Publish AgentTrust c, Publish TrackTrust d]))"
proof (cases "store_tracks E (n_agents self)
            (enumerate 0 (py_slice args 0 (n_agents self + 1))) [] None")
  case (Inl e)
  with quiet loud show ?thesis
    by (auto simp: trks_fov_receive_def Let_def)
next
  case (Inr res)
  obtain ta cc where res: "res = (ta, cc)" by (cases res)
  obtain rf lk where fovs: "store_fovs E (tf_buffer self)
      (enumerate 0 (py_slice args (n_agents self + 1) (2 * n_agents self + 1))) [] [] = (rf, lk)"
    by (cases "store_fovs E (tf_buffer self)
      (enumerate 0 (py_slice args (n_agents self + 1) (2 * n_agents self + 1))) [] []")
  show ?thesis
  proof (cases rf)
    case (Inl e)
    with quiet loud Inr res fovs show ?thesis
      by (auto simp: trks_fov_receive_def Let_def)
  next
    case rf: (Inr fp)
    obtain fa pa where fp: "fp = (fa, pa)" by (cases fp)
    show ?thesis
    proof (cases cc)
      case None
      with quiet loud Inr res fovs rf fp show ?thesis
        by (auto simp: trks_fov_receive_def Let_def)
    next
      case (Some c)
      obtain ccm tcc where c: "c = (ccm, tcc)" by (cases c)
      obtain q0 k0 t0 where p0: "propagate_and_run E False (model self) pa fa ta ccm tcc
            = (q0, k0, t0)"
        by (cases "propagate_and_run E False (model self) pa fa ta ccm tcc")
      obtain q1 k1 t1 where p1: "propagate_and_run E True (model self) pa fa ta ccm tcc
            = (q1, k1, t1)"
        by (cases "propagate_and_run E True (model self) pa fa ta ccm tcc")
      from quiet Inr res fovs rf fp Some c p0
      have e0: "r0 = q0" "model s0 = k0" "evs0 = lk @ t0"
        by (auto simp: trks_fov_receive_def Let_def)
      from loud Inr res fovs rf fp Some c p1
      have e1: "r1 = q1" "model s1 = k1" "evs1 = received_log True args @ lk @ t1"
        by (auto simp: trks_fov_receive_def Let_def)
      note v = propagate_and_run_verbose[OF p0 p1]
      have "r0 = None \<longrightarrow>
            (\<exists>pre a b c d. evs0 = pre @ [Publish AgentPsms a, Publish TrackPsms b,
               Publish AgentTrust c, Publish TrackTrust d])"
      proof
        assume "r0 = None"
        with v e0(1) obtain pre a b c d where
          t0: "t0 = pre @ [Publish AgentPsms a, Publish TrackPsms b, Publish AgentTrust c,
               Publish TrackTrust d]"
          by (elim conjE impE exE) simp_all
        show "\<exists>pre a b c d. evs0 = pre @ [Publish AgentPsms a, Publish TrackPsms b,
               Publish AgentTrust c, Publish TrackTrust d]"
          unfolding e0(3) t0
          by (intro exI[of _ "lk @ pre"] exI[of _ a] exI[of _ b] exI[of _ c] exI[of _ d]) simp
      qed
      moreover from v have "k1 = k0"
        and "t1 = t0 @ (if q0 = None then snd (log_diagnostics E True k0) else [])"
        and "q1 = (if q0 = None then fst (log_diagnostics E True k0) else q0)"
        by simp_all
      ultimately show ?thesis using e0 e1 by simp
    qed
  qed
qed

subsection \<open>Evaluating the example\<close>

lemma agent_frame_0: "agent_frame 0 = ''agent0''"
  by (simp add: agent_frame_def str_nat.simps digit_char_def)

lemma example_node_sel:
  "n_agents (example_node vb) = 1" "verbose (example_node vb) = vb"
  "model (example_node vb) = 0" "tf_buffer (example_node vb) = example_buffer"
  by (simp_all add: example_node_def init_def Let_def example_bridge_def)

lemma example_slices:
  "py_slice [a, b, c] 0 2 = [a, b]" "py_slice [a, b, c] 2 3 = [c]"
  by (simp_all add: py_slice_def slice_index_def Let_def)

lemma example_run:
  "trks_fov_receive example_bridge (example_node False) (example_batch 10) =
     (None, (example_node False)\<lparr>model := 10\<rparr>,
      [LookupTransform ''world'' ''agent0'' Time0,
       PropagateTrackTrust 10, PropagateAgentTrust 10,
       ModelCall [(0, 99)] [(0, 13)] [(0, 11)] 12,
       Publish AgentPsms 103, Publish TrackPsms 104, Publish AgentTrust 201,
       Publish TrackTrust 202])"
  by (simp add: trks_fov_receive_def example_node_sel example_batch_def example_slices
      received_log_def example_msg_def example_bridge_def dict_set_def lookup_pose_def
      example_buffer_def agent_frame_0 propagate_and_run_def publish_outputs_def convert_outputs_def publish_messages_def
      log_diagnostics_def Let_def)

lemma example_lost_node_sel:
  "n_agents example_lost_node = 1" "verbose example_lost_node = False"
  "model example_lost_node = 0"
  "tf_buffer example_lost_node = (\<lambda>target source t. Inl (Raised ''LookupException''))"
  by (simp_all add: example_lost_node_def init_def Let_def example_bridge_def)

lemma example_lost_run:
  "trks_fov_receive example_bridge example_lost_node (example_batch 10) =
     (Some (Raised ''LookupException''), example_lost_node,
      [LookupTransform ''world'' ''agent0'' Time0])"
  by (simp add: trks_fov_receive_def example_lost_node_sel example_batch_def example_slices
      received_log_def example_msg_def example_bridge_def dict_set_def lookup_pose_def
      agent_frame_0 Let_def)

lemma example_failing_run:
  "trks_fov_receive example_failing_bridge (example_node False) (example_batch 10) =
     (Some (Raised ''ValueError''), (example_node False)\<lparr>model := 10\<rparr>,
      [LookupTransform ''world'' ''agent0'' Time0,
       PropagateTrackTrust 10, PropagateAgentTrust 10,
       ModelCall [(0, 99)] [(0, 13)] [(0, 11)] 12])"
  by (simp add: trks_fov_receive_def example_node_sel example_batch_def example_slices
      received_log_def example_msg_def example_bridge_def example_failing_bridge_def
      dict_set_def lookup_pose_def example_buffer_def agent_frame_0 propagate_and_run_def Let_def)


lemma str_nat_3: "str_nat (Suc (Suc (Suc 0))) = ''3''"
  by (subst str_nat.simps) (simp add: digit_char_def)

lemma example_received:
  "received_log True (example_batch 10) = [LogInfo ''Received 3 track/fov messages!'']"
  by (simp add: received_log_def example_batch_def str_nat_3)

lemma example_quiet_run:
  "trks_fov_receive example_bridge ((example_node False)\<lparr>verbose := False\<rparr>) (example_batch 10) =
     (None, (example_node False)\<lparr>verbose := False, model := 10\<rparr>,
      [LookupTransform ''world'' ''agent0'' Time0,
       PropagateTrackTrust 10, PropagateAgentTrust 10,
       ModelCall [(0, 99)] [(0, 13)] [(0, 11)] 12,
       Publish AgentPsms 103, Publish TrackPsms 104, Publish AgentTrust 201,
       Publish TrackTrust 202])"
  by (simp add: trks_fov_receive_def example_node_sel example_batch_def example_slices
      received_log_def example_msg_def example_bridge_def dict_set_def lookup_pose_def
      example_buffer_def agent_frame_0 propagate_and_run_def publish_outputs_def convert_outputs_def publish_messages_def
      log_diagnostics_def Let_def)

lemma example_loud_run:
  "trks_fov_receive example_bridge ((example_node False)\<lparr>verbose := True\<rparr>) (example_batch 10) =
     (None, (example_node False)\<lparr>verbose := True, model := 10\<rparr>,
      [LogInfo ''Received 3 track/fov messages!'',
       LookupTransform ''world'' ''agent0'' Time0,
       PropagateTrackTrust 10, PropagateAgentTrust 10,
       ModelCall [(0, 99)] [(0, 13)] [(0, 11)] 12,
       Publish AgentPsms 103, Publish TrackPsms 104, Publish AgentTrust 201,
       Publish TrackTrust 202,
       LogInfo ''diagnostics'', LogInfo ''assign diagnostics''])"
  by (simp add: trks_fov_receive_def example_node_sel example_batch_def example_slices
      received_log_def example_msg_def example_bridge_def dict_set_def lookup_pose_def
      example_buffer_def agent_frame_0 propagate_and_run_def publish_outputs_def convert_outputs_def publish_messages_def
      log_diagnostics_def Let_def str_nat_3)

lemma str_nat_0: "str_nat 0 = ''0''"
  by (subst str_nat.simps) (simp add: digit_char_def)

lemma example_broken_run:
  "trks_fov_receive example_broken_diagnostics (example_node True) (example_batch 10) =
     (Some (Raised ''AttributeError''), (example_node True)\<lparr>model := 10\<rparr>,
      [LogInfo ''Received 3 track/fov messages!'',
       LookupTransform ''world'' ''agent0'' Time0,
       PropagateTrackTrust 10, PropagateAgentTrust 10,
       ModelCall [(0, 99)] [(0, 13)] [(0, 11)] 12,
       Publish AgentPsms 103, Publish TrackPsms 104, Publish AgentTrust 201,
       Publish TrackTrust 202])"
  by (simp add: trks_fov_receive_def example_node_sel example_batch_def example_slices
      received_log_def example_msg_def example_bridge_def example_broken_diagnostics_def
      dict_set_def lookup_pose_def example_buffer_def agent_frame_0 propagate_and_run_def
      publish_outputs_def convert_outputs_def publish_messages_def log_diagnostics_def Let_def str_nat_3)

lemma example_failing_sink_run:
  "trks_fov_receive example_failing_sink (example_node False) (example_batch 10) =
     (Some (Raised ''RCLError''), (example_node False)\<lparr>model := 10\<rparr>,
      [LookupTransform ''world'' ''agent0'' Time0,
       PropagateTrackTrust 10, PropagateAgentTrust 10,
       ModelCall [(0, 99)] [(0, 13)] [(0, 11)] 12,
       Publish AgentPsms 103])"
  by (simp add: trks_fov_receive_def example_node_sel example_batch_def example_slices
      received_log_def example_msg_def example_bridge_def example_failing_sink_def
      dict_set_def lookup_pose_def example_buffer_def agent_frame_0 propagate_and_run_def
      publish_outputs_def convert_outputs_def publish_messages_def Let_def)

lemma example_broken_quiet_run:
  "trks_fov_receive example_broken_diagnostics ((example_node False)\<lparr>verbose := False\<rparr>)
      (example_batch 10) =
     (None, (example_node False)\<lparr>verbose := False, model := 10\<rparr>,
      [LookupTransform ''world'' ''agent0'' Time0,
       PropagateTrackTrust 10, PropagateAgentTrust 10,
       ModelCall [(0, 99)] [(0, 13)] [(0, 11)] 12,
       Publish AgentPsms 103, Publish TrackPsms 104, Publish AgentTrust 201,
       Publish TrackTrust 202])"
  by (simp add: trks_fov_receive_def example_node_sel example_batch_def example_slices
      received_log_def example_msg_def example_bridge_def example_broken_diagnostics_def
      dict_set_def lookup_pose_def example_buffer_def agent_frame_0 propagate_and_run_def
      publish_outputs_def convert_outputs_def publish_messages_def log_diagnostics_def Let_def)

lemma example_broken_loud_run:
  "trks_fov_receive example_broken_diagnostics ((example_node False)\<lparr>verbose := True\<rparr>)
      (example_batch 10) =
     (Some (Raised ''AttributeError''), (example_node False)\<lparr>verbose := True, model := 10\<rparr>,
      [LogInfo ''Received 3 track/fov messages!'',
       LookupTransform ''world'' ''agent0'' Time0,
       PropagateTrackTrust 10, PropagateAgentTrust 10,
       ModelCall [(0, 99)] [(0, 13)] [(0, 11)] 12,
       Publish AgentPsms 103, Publish TrackPsms 104, Publish AgentTrust 201,
       Publish TrackTrust 202])"
  by (simp add: trks_fov_receive_def example_node_sel example_batch_def example_slices
      received_log_def example_msg_def example_bridge_def example_broken_diagnostics_def
      dict_set_def lookup_pose_def example_buffer_def agent_frame_0 propagate_and_run_def
      publish_outputs_def convert_outputs_def publish_messages_def log_diagnostics_def Let_def
      str_nat_3)






section \<open>The claims\<close>

subsection \<open>C1: an item in another frame makes the callback raise\<close>




subsection \<open>C2: propagation follows the order of delivery\<close>




subsection \<open>C3: the pose is the latest one, not the one at the batch time\<close>

text \<open>
  C3, as the spec states it, fails: the callback looks every pose up with
  \<^verbatim>\<open>time=Time()\<close>, the latest transform in the buffer, whatever the batch timestamp is.
  In the example the batch is stamped 10 s and the buffer holds pose 7 (stamped 9 s) and
  pose 99 (stamped 12 s): the pose known at or before the batch time is 7, the callback
  asks for time zero and hands 99 to the trust computation.
\<close>

theorem pose_at_batch_time_counterexample:
  "stamp (header (example_batch 10 ! 1)) = \<lparr>sec = 10, nanosec = 0\<rparr> \<and>
   map_sum id translation (example_buffer ''world'' ''agent0'' \<lparr>sec = 10, nanosec = 0\<rparr>)
     = Inr 7 \<and>
   Time0 \<noteq> \<lparr>sec = 10, nanosec = 0\<rparr> \<and>
   filter is_lookup (snd (snd
      (trks_fov_receive example_bridge (example_node False) (example_batch 10))))
     = [LookupTransform ''world'' ''agent0'' Time0] \<and>
   ModelCall [(0, 99)] [(0, 13)] [(0, 11)] 12 \<in> set (snd (snd
      (trks_fov_receive example_bridge (example_node False) (example_batch 10))))"
proof -
  have "stamp (header (example_batch 10 ! 1)) = \<lparr>sec = 10, nanosec = 0\<rparr>"
    and "map_sum id translation
      (example_buffer ''world'' ''agent0'' \<lparr>sec = 10, nanosec = 0\<rparr>) = Inr 7"
    and "Time0 \<noteq> \<lparr>sec = 10, nanosec = 0\<rparr>"
    by (simp_all add: example_batch_def example_msg_def example_buffer_def Time0_def)
  moreover have "filter is_lookup (snd (snd
      (trks_fov_receive example_bridge (example_node False) (example_batch 10))))
     = [LookupTransform ''world'' ''agent0'' Time0]"
    and "ModelCall [(0, 99)] [(0, 13)] [(0, 11)] 12 \<in> set (snd (snd
      (trks_fov_receive example_bridge (example_node False) (example_batch 10))))"
    by (simp_all add: example_run)
  ultimately show ?thesis by blast
qed

text \<open>
  C3, amended.  Every pose lookup of the callback asks for the transform from
  \<open>agent{i}\<close> to \<open>world\<close> at time zero (\<^verbatim>\<open>Time()\<close>: the latest available).  When the
  callback, on \<open>2N+1\<close> arguments, reaches the trust computation, it has made exactly
  these lookups for the agents \<open>0..N-1\<close>, in this order, and the position it hands over
  for agent \<open>i\<close> is \<open>position_to_avstack\<close> of the transform the buffer returned for
  that lookup; the batch timestamp plays no part.
\<close>

theorem pose_is_latest_available:
  assumes run: "trks_fov_receive E self args = (r, self', evs)"
  shows "(\<forall>e\<in>set evs. is_lookup e \<longrightarrow>
            (\<exists>i. e = LookupTransform ''world'' (agent_frame i) Time0)) \<and>
         (\<forall>pa fa ta tcc.
            0 \<le> n_agents self \<and> length args = 2 * nat (n_agents self) + 1 \<and>
            ModelCall pa fa ta tcc \<in> set evs \<longrightarrow>
              map fst pa = [0..<nat (n_agents self)] \<and>
              filter is_lookup evs =
                map (\<lambda>i. LookupTransform ''world'' (agent_frame i) Time0)
                  [0..<nat (n_agents self)] \<and>
              (\<forall>i<nat (n_agents self). \<exists>tf.
                 tf_buffer self ''world'' (agent_frame i) Time0 = Inr tf \<and>
                 position_to_avstack E (translation tf) (tf_header tf) = Inr (snd (pa ! i))))"
proof (intro conjI ballI impI allI)
  fix e assume "e \<in> set evs" "is_lookup e"
  with run show "\<exists>i. e = LookupTransform ''world'' (agent_frame i) Time0"
    by (rule lookups_ask_latest)
next
  fix pa fa ta tcc
  assume h: "0 \<le> n_agents self \<and> length args = 2 * nat (n_agents self) + 1 \<and>
            ModelCall pa fa ta tcc \<in> set evs"
  then have n: "0 \<le> n_agents self" and len: "length args = 2 * nat (n_agents self) + 1"
    and mc: "ModelCall pa fa ta tcc \<in> set evs" by simp_all
  note part = callback_partition[OF n len run mc]
  from part show "map fst pa = [0..<nat (n_agents self)]" by simp
  from part show "filter is_lookup evs =
      map (\<lambda>i. LookupTransform ''world'' (agent_frame i) Time0) [0..<nat (n_agents self)]"
    by simp
  fix i assume i: "i < nat (n_agents self)"
  from part have "map (lookup_pose E (tf_buffer self)) [0..<nat (n_agents self)]
      = map Inr (map snd pa)" by simp
  then have "map (lookup_pose E (tf_buffer self)) [0..<nat (n_agents self)] ! i
      = map Inr (map snd pa) ! i" by simp
  moreover from part have "length pa = nat (n_agents self)"
    by (metis length_map length_upt minus_nat.diff_0)
  ultimately have "lookup_pose E (tf_buffer self) i = Inr (snd (pa ! i))"
    using i by simp
  then show "\<exists>tf. tf_buffer self ''world'' (agent_frame i) Time0 = Inr tf \<and>
      position_to_avstack E (translation tf) (tf_header tf) = Inr (snd (pa ! i))"
    by (auto simp: lookup_pose_def split: sum.splits)
qed


theorem pose_is_latest_available_witness:
  "0 \<le> n_agents (example_node False) \<and>
   length (example_batch 10) = 2 * nat (n_agents (example_node False)) + 1 \<and>
   ModelCall [(0, 99)] [(0, 13)] [(0, 11)] 12 \<in> set (snd (snd
      (trks_fov_receive example_bridge (example_node False) (example_batch 10)))) \<and>
   filter is_lookup (snd (snd
      (trks_fov_receive example_bridge (example_node False) (example_batch 10))))
     = map (\<lambda>i. LookupTransform ''world'' (agent_frame i) Time0)
         [0..<nat (n_agents (example_node False))] \<and>
   (\<exists>tf. tf_buffer (example_node False) ''world'' (agent_frame 0) Time0 = Inr tf \<and>
      position_to_avstack example_bridge (translation tf) (tf_header tf)
        = Inr (snd ([(0 :: nat, 99 :: nat)] ! 0)))"
proof -
  have n: "0 \<le> n_agents (example_node False)"
    and len: "length (example_batch 10) = 2 * nat (n_agents (example_node False)) + 1"
    and i: "0 < nat (n_agents (example_node False))"
    by (simp_all add: example_node_sel example_batch_def)
  have mc: "ModelCall [(0, 99)] [(0, 13)] [(0, 11)] 12 \<in> set
      [LookupTransform ''world'' ''agent0'' Time0,
       PropagateTrackTrust 10, PropagateAgentTrust 10,
       ModelCall [(0, 99)] [(0, 13)] [(0, 11)] (12 :: nat),
       Publish AgentPsms 103, Publish TrackPsms 104, Publish AgentTrust 201,
       Publish TrackTrust 202]"
    by simp
  from pose_is_latest_available[OF example_run] n len mc i
  have "filter is_lookup
      [LookupTransform ''world'' ''agent0'' Time0,
       PropagateTrackTrust 10, PropagateAgentTrust 10,
       ModelCall [(0, 99)] [(0, 13)] [(0, 11)] (12 :: nat),
       Publish AgentPsms 103, Publish TrackPsms 104, Publish AgentTrust 201,
       Publish TrackTrust 202]
     = map (\<lambda>i. LookupTransform ''world'' (agent_frame i) Time0)
         [0..<nat (n_agents (example_node False))] \<and>
   (\<exists>tf. tf_buffer (example_node False) ''world'' (agent_frame 0) Time0 = Inr tf \<and>
      position_to_avstack example_bridge (translation tf) (tf_header tf)
        = Inr (snd ([(0 :: nat, 99 :: nat)] ! 0)))"
    by blast
  with n len mc show ?thesis by (simp add: example_run)
qed

subsection \<open>C4: both propagations once, before the trust computation\<close>



subsection \<open>C5: the four sinks publish in order, up to the first call that raises\<close>

text \<open>
  C5, as the spec states it, fails: publication is not all-or-nothing.  The four
  \<^verbatim>\<open>publish\<close> calls follow one another with nothing around them, so a call that raises
  leaves the earlier messages published.  In the example the trust computation returns,
  the four outputs convert, and the track-PSM publisher raises: the callback raises, and
  of the four sinks only the agent-PSM sink has published.
\<close>

theorem partial_publication_counterexample:
  "fst (model_call example_failing_sink [(0, 99)] [(0, 13)] [(0, 11)] 12 10) = Inr (1, 2, 3, 4) \<and>
   convert_outputs example_failing_sink (1, 2, 3, 4) = Inr (103, 104, 201, 202) \<and>
   fst (trks_fov_receive example_failing_sink (example_node False) (example_batch 10))
     = Some (Raised ''RCLError'') \<and>
   publishes (snd (snd
      (trks_fov_receive example_failing_sink (example_node False) (example_batch 10))))
     = [Publish AgentPsms 103]"
  by (simp add: example_failing_sink_run)
    (simp add: example_failing_sink_def example_bridge_def convert_outputs_def)

text \<open>
  C5, amended.  A run of the callback publishes a prefix of the four messages, in the
  order agent PSMs, track PSMs, agent trust, track trust, and a run that returns has
  published all four.  When the trust computation is reached, it runs on the model as the
  two propagation calls left it, and the node keeps the model as that call left it (the
  propagation is not undone).  If the computation raises, the callback raises the same
  exception and nothing is published.  If it returns and one of the four conversions
  raises, the callback raises that exception and nothing is published.  Otherwise the
  sinks publish one after the other up to the first \<^verbatim>\<open>publish\<close> that raises: the callback
  raises that exception and the earlier messages stay published; when no \<^verbatim>\<open>publish\<close>
  raises, all four sinks have published and the outcome is that of the diagnostics.
\<close>

theorem publish_in_order_until_raise:
  assumes run: "trks_fov_receive E self args = (r, self', evs)"
  shows "(\<exists>a b c d.
            (\<exists>k. publishes evs = take k [Publish AgentPsms a, Publish TrackPsms b,
                Publish AgentTrust c, Publish TrackTrust d]) \<and>
            (r = None \<longrightarrow> publishes evs = [Publish AgentPsms a, Publish TrackPsms b,
                Publish AgentTrust c, Publish TrackTrust d])) \<and>
         (\<forall>pa fa ta tcc. ModelCall pa fa ta tcc \<in> set evs \<longrightarrow>
            (\<exists>t m1 m2 res.
               propagate_track_trust E t (model self) = (Inr (), m1) \<and>
               propagate_agent_trust E t m1 = (Inr (), m2) \<and>
               model_call E pa fa ta tcc m2 = (res, model self') \<and>
               (case res of
                  Inl e \<Rightarrow> r = Some e \<and> publishes evs = []
                | Inr out \<Rightarrow>
                    (case convert_outputs E out of
                       Inl e \<Rightarrow> r = Some e \<and> publishes evs = []
                     | Inr (a, b, c, d) \<Rightarrow>
                         publishes evs = map (\<lambda>(s, m). Publish s m)
                           (takeWhile (\<lambda>(s, m). \<not> isl (publish E s m))
                              [(AgentPsms, a), (TrackPsms, b), (AgentTrust, c),
                               (TrackTrust, d)]) \<and>
                         r = (case fst (publish_messages E (a, b, c, d)) of
                                Some e \<Rightarrow> Some e
                              | None \<Rightarrow>
                                  fst (log_diagnostics E (verbose self) (model self')))))))"
  using run
proof (cases rule: trks_fov_receive_elim)
  case (aborted lk)
  have q: "\<forall>e\<in>set evs. is_log e \<or> is_lookup e"
    unfolding aborted(3) using aborted(4) by (rule quiet_prefix)
  then have "\<And>pa fa ta tcc. ModelCall pa fa ta tcc \<notin> set evs"
    by (rule model_call_not_quiet)
  moreover from q have "publishes evs = []" by (rule publishes_quiet)
  then have "\<exists>a b c d.
            (\<exists>k. publishes evs = take k [Publish AgentPsms a, Publish TrackPsms b,
                Publish AgentTrust c, Publish TrackTrust d]) \<and>
            (r = None \<longrightarrow> publishes evs = [Publish AgentPsms a, Publish TrackPsms b,
                Publish AgentTrust c, Publish TrackTrust d])"
    using aborted(1) by (auto intro: exI[of _ 0])
  ultimately show ?thesis by simp
next
  case (propagating lk ta ccm tcc fa pa t tail)
  have q: "\<forall>e\<in>set (received_log (verbose self) args @ lk). is_log e \<or> is_lookup e"
    using propagating(2) by (intro quiet_prefix) (rule store_fovs_lookups)
  then have "\<And>pa fa ta tcc. ModelCall pa fa ta tcc \<notin> set (received_log (verbose self) args @ lk)"
    by (rule model_call_not_quiet)
  moreover have "\<And>pa fa ta tcc. ModelCall pa fa ta tcc \<notin> set tail"
    using propagating(7) by auto
  moreover have ev: "evs = (received_log (verbose self) args @ lk) @ tail"
    using propagating(6) by simp
  ultimately have no: "\<And>pa fa ta tcc. ModelCall pa fa ta tcc \<notin> set evs"
    by simp
  have "publishes tail = []"
    using propagating(7) by (auto simp: publishes_def)
  then have "publishes evs = []"
    using publishes_quiet[OF q] by (simp add: ev publishes_append)
  then have "\<exists>a b c d.
            (\<exists>k. publishes evs = take k [Publish AgentPsms a, Publish TrackPsms b,
                Publish AgentTrust c, Publish TrackTrust d]) \<and>
            (r = None \<longrightarrow> publishes evs = [Publish AgentPsms a, Publish TrackPsms b,
                Publish AgentTrust c, Publish TrackTrust d])"
    using propagating(4) by (auto intro: exI[of _ 0])
  with no show ?thesis by simp
next
  case (computed lk ta ccm tcc fa pa t m1 m2 res pub)
  define P where "P = (\<exists>a b c d.
            (\<exists>k. publishes evs = take k [Publish AgentPsms a, Publish TrackPsms b,
                Publish AgentTrust c, Publish TrackTrust d]) \<and>
            (r = None \<longrightarrow> publishes evs = [Publish AgentPsms a, Publish TrackPsms b,
                Publish AgentTrust c, Publish TrackTrust d]))"
  define Q where "Q = (\<lambda>res. case res of
      Inl e \<Rightarrow> r = Some e \<and> publishes evs = []
    | Inr out \<Rightarrow>
        (case convert_outputs E out of
           Inl e \<Rightarrow> r = Some e \<and> publishes evs = []
         | Inr (a, b, c, d) \<Rightarrow>
             publishes evs = map (\<lambda>(s, m). Publish s m)
               (takeWhile (\<lambda>(s, m). \<not> isl (publish E s m))
                  [(AgentPsms, a), (TrackPsms, b), (AgentTrust, c), (TrackTrust, d)]) \<and>
             r = (case fst (publish_messages E (a, b, c, d)) of
                    Some e \<Rightarrow> Some e
                  | None \<Rightarrow> fst (log_diagnostics E (verbose self) (model self')))))"
  have q: "\<forall>e\<in>set (received_log (verbose self) args @ lk). is_log e \<or> is_lookup e"
    using computed(2) by (intro quiet_prefix) (rule store_fovs_lookups)
  then have nomc: "\<And>pa fa ta tcc. ModelCall pa fa ta tcc \<notin> set (received_log (verbose self) args @ lk)"
    by (rule model_call_not_quiet)
  have pubev: "\<forall>e\<in>set pub. is_publish e \<or> is_log e"
    using computed(9) by (rule after_model_call_events)
  then have nomc': "\<And>pa fa ta tcc. ModelCall pa fa ta tcc \<notin> set pub"
    by (rule model_call_not_published)
  have ev: "evs = (received_log (verbose self) args @ lk) @
      [PropagateTrackTrust t, PropagateAgentTrust t, ModelCall pa fa ta tcc] @ pub"
    using computed(8) by simp
  have mc: "pa' = pa \<and> fa' = fa \<and> ta' = ta \<and> tcc' = tcc"
    if "ModelCall pa' fa' ta' tcc' \<in> set evs" for pa' fa' ta' tcc'
    using that nomc[of pa' fa' ta' tcc'] nomc'[of pa' fa' ta' tcc'] unfolding ev by simp
  have pe: "publishes evs = publishes pub"
    using publishes_quiet[OF q] by (simp add: ev publishes_append)
  have none: "P" if "r \<noteq> None" "publishes evs = []"
    unfolding P_def using that by (auto intro: exI[of _ 0])
  have both: "P \<and> Q res"
  proof (cases res)
    case (Inl e)
    with computed(9) have "r = Some e" "pub = []" by simp_all
    with pe have "r = Some e" "publishes evs = []" by (simp_all add: publishes_def)
    with Inl none show ?thesis by (simp add: Q_def)
  next
    case (Inr out)
    with computed(9) have po: "publish_outputs E (verbose self) (model self') out = (r, pub)"
      by simp
    from po show ?thesis
    proof (cases rule: publish_outputs_elim)
      case (conversion_raised e)
      with pe have "r = Some e" "publishes evs = []" by (simp_all add: publishes_def)
      with Inr conversion_raised(1) none show ?thesis by (simp add: Q_def)
    next
      case (publish_raised msgs e)
      obtain a b c d where msgs: "msgs = (a, b, c, d)" by (cases msgs)
      note pm = publish_raised(2)[unfolded msgs]
      from publish_messages_events[OF pm] have "publishes pub = pub"
        by (rule publishes_published)
      with pe publish_messages_prefix[OF pm]
      have pf: "publishes evs = map (\<lambda>(s, m). Publish s m)
               (takeWhile (\<lambda>(s, m). \<not> isl (publish E s m))
                  [(AgentPsms, a), (TrackPsms, b), (AgentTrust, c), (TrackTrust, d)])"
        by simp
      define k where "k = length (takeWhile (\<lambda>(s, m). \<not> isl (publish E s m))
          [(AgentPsms, a), (TrackPsms, b), (AgentTrust, c), (TrackTrust, d)])"
      have tk: "takeWhile (\<lambda>(s, m). \<not> isl (publish E s m))
          [(AgentPsms, a), (TrackPsms, b), (AgentTrust, c), (TrackTrust, d)] =
        take k [(AgentPsms, a), (TrackPsms, b), (AgentTrust, c), (TrackTrust, d)]"
        unfolding k_def by (rule takeWhile_eq_take)
      have "publishes evs = map (\<lambda>(s, m). Publish s m)
          (take k [(AgentPsms, a), (TrackPsms, b), (AgentTrust, c), (TrackTrust, d)])"
        unfolding pf tk by (rule refl)
      also have "\<dots> = take k (map (\<lambda>(s, m). Publish s m)
          [(AgentPsms, a), (TrackPsms, b), (AgentTrust, c), (TrackTrust, d)])"
        by (rule take_map[symmetric])
      finally have "publishes evs = take k [Publish AgentPsms a, Publish TrackPsms b,
                Publish AgentTrust c, Publish TrackTrust d]"
        by simp
      with publish_raised(3) have P unfolding P_def by blast
      moreover have "Q res"
        using Inr publish_raised(1,3) msgs pm pf by (simp add: Q_def)
      ultimately show ?thesis ..
    next
      case (published msgs pubs logs)
      obtain a b c d where msgs: "msgs = (a, b, c, d)" by (cases msgs)
      note pm = published(2)[unfolded msgs]
      from publish_messages_all[OF pm]
      have pubs: "pubs = [Publish AgentPsms a, Publish TrackPsms b, Publish AgentTrust c,
          Publish TrackTrust d]"
        by simp
      from log_diagnostics_logs[OF published(3)] have "publishes logs = []"
        by (rule publishes_logs)
      with pe published(4) pubs
      have four: "publishes evs = [Publish AgentPsms a, Publish TrackPsms b,
          Publish AgentTrust c, Publish TrackTrust d]"
        by (simp add: publishes_four)
      have "publishes evs = take 4 [Publish AgentPsms a, Publish TrackPsms b,
          Publish AgentTrust c, Publish TrackTrust d]"
        using four by simp
      with four have P unfolding P_def by blast
      moreover have "publishes evs = map (\<lambda>(s, m). Publish s m)
               (takeWhile (\<lambda>(s, m). \<not> isl (publish E s m))
                  [(AgentPsms, a), (TrackPsms, b), (AgentTrust, c), (TrackTrust, d)])"
        using publish_messages_prefix[OF pm] four pubs by simp
      then have "Q res"
        using Inr published(1,3) msgs pm by (simp add: Q_def)
      ultimately show ?thesis ..
    qed
  qed
  have "\<exists>t m1 m2 res.
       propagate_track_trust E t (model self) = (Inr (), m1) \<and>
       propagate_agent_trust E t m1 = (Inr (), m2) \<and>
       model_call E pa' fa' ta' tcc' m2 = (res, model self') \<and> Q res"
    if "ModelCall pa' fa' ta' tcc' \<in> set evs" for pa' fa' ta' tcc'
    using mc[OF that] computed(4,5,6) both by blast
  with both show ?thesis unfolding P_def Q_def by blast
qed

theorem publish_in_order_until_raise_witness:
  "ModelCall [(0, 99)] [(0, 13)] [(0, 11)] 12 \<in> set (snd (snd
      (trks_fov_receive example_bridge (example_node False) (example_batch 10)))) \<and>
   fst (trks_fov_receive example_bridge (example_node False) (example_batch 10)) = None \<and>
   publishes (snd (snd
      (trks_fov_receive example_bridge (example_node False) (example_batch 10)))) =
     [Publish AgentPsms 103, Publish TrackPsms 104, Publish AgentTrust 201,
      Publish TrackTrust 202] \<and>
   ModelCall [(0, 99)] [(0, 13)] [(0, 11)] 12 \<in> set (snd (snd
      (trks_fov_receive example_failing_sink (example_node False) (example_batch 10)))) \<and>
   publishes (snd (snd
      (trks_fov_receive example_failing_sink (example_node False) (example_batch 10)))) =
     take 1 [Publish AgentPsms 103, Publish TrackPsms 104, Publish AgentTrust 201,
      Publish TrackTrust 202] \<and>
   ModelCall [(0, 99)] [(0, 13)] [(0, 11)] 12 \<in> set (snd (snd
      (trks_fov_receive example_failing_bridge (example_node False) (example_batch 10)))) \<and>
   fst (trks_fov_receive example_failing_bridge (example_node False) (example_batch 10)) =
     Some (Raised ''ValueError'') \<and>
   publishes (snd (snd
      (trks_fov_receive example_failing_bridge (example_node False) (example_batch 10)))) = [] \<and>
   model (fst (snd
      (trks_fov_receive example_failing_bridge (example_node False) (example_batch 10)))) = 10"
  using publish_in_order_until_raise[OF example_run]
    publish_in_order_until_raise[OF example_failing_sink_run]
    publish_in_order_until_raise[OF example_failing_run]
  by (simp add: example_run example_failing_run example_failing_sink_run)

subsection \<open>C6: a failed pose lookup aborts the batch before propagation\<close>

text \<open>
  C6.  In every run of the callback the pose lookups come before anything that touches the
  trust model or a sink: the events split into a part with only log lines and lookups and
  a part without lookups.  If the batch has its \<open>2N+1\<close> items and the pose of some agent
  \<open>i < N\<close> cannot be resolved, the callback raises, the node (its model included) is
  unchanged, nothing is published and no propagation or model call has been made.
\<close>

theorem pose_unavailable_aborts_batch:
  assumes run: "trks_fov_receive E self args = (r, self', evs)"
  shows "(\<exists>pre post. evs = pre @ post \<and> (\<forall>e\<in>set pre. is_log e \<or> is_lookup e) \<and>
            (\<forall>e\<in>set post. \<not> is_lookup e)) \<and>
         (0 \<le> n_agents self \<and> length args = nat (2 * n_agents self + 1) \<and>
          (\<exists>i<nat (n_agents self). isl (lookup_pose E (tf_buffer self) i)) \<longrightarrow>
            r \<noteq> None \<and> self' = self \<and> publishes evs = [] \<and> propagated evs = [] \<and>
            (\<forall>ev\<in>set evs. \<not> is_pipeline ev))"
  using run
proof (cases rule: trks_fov_receive_elim)
  case (aborted lk)
  have q: "\<forall>e\<in>set evs. is_log e \<or> is_lookup e"
    unfolding aborted(3) using aborted(4) by (rule quiet_prefix)
  then have "\<forall>ev\<in>set evs. \<not> is_pipeline ev"
    using not_pipeline_log_lookup by blast
  moreover have "\<exists>pre post. evs = pre @ post \<and> (\<forall>e\<in>set pre. is_log e \<or> is_lookup e) \<and>
            (\<forall>e\<in>set post. \<not> is_lookup e)"
    using q by (intro exI[of _ evs] exI[of _ "[]"]) simp
  ultimately show ?thesis
    using q aborted(1,2) by (simp add: publishes_quiet propagated_quiet)
next
  case (propagating lk ta ccm tcc fa pa t tail)
  have "\<forall>e\<in>set (received_log (verbose self) args @ lk). is_log e \<or> is_lookup e"
    using propagating(2) by (intro quiet_prefix) (rule store_fovs_lookups)
  moreover have "\<forall>e\<in>set tail. \<not> is_lookup e"
    using propagating(7) by auto
  ultimately have "\<exists>pre post. evs = pre @ post \<and> (\<forall>e\<in>set pre. is_log e \<or> is_lookup e) \<and>
            (\<forall>e\<in>set post. \<not> is_lookup e)"
    using propagating(6)
    by (intro exI[of _ "received_log (verbose self) args @ lk"] exI[of _ tail]) simp
  with pose_failure_stops_storing[OF _ _ _ _ propagating(2)] show ?thesis by blast
next
  case (computed lk ta ccm tcc fa pa t m1 m2 res pub)
  have "\<forall>e\<in>set (received_log (verbose self) args @ lk). is_log e \<or> is_lookup e"
    using computed(2) by (intro quiet_prefix) (rule store_fovs_lookups)
  moreover have "\<forall>e\<in>set ([PropagateTrackTrust t, PropagateAgentTrust t,
        ModelCall pa fa ta tcc] @ pub). \<not> is_lookup e"
    using after_model_call_events[OF computed(9)] publish_log_not_lookup by auto
  ultimately have "\<exists>pre post. evs = pre @ post \<and> (\<forall>e\<in>set pre. is_log e \<or> is_lookup e) \<and>
            (\<forall>e\<in>set post. \<not> is_lookup e)"
    using computed(8)
    by (intro exI[of _ "received_log (verbose self) args @ lk"]
          exI[of _ "[PropagateTrackTrust t, PropagateAgentTrust t, ModelCall pa fa ta tcc] @ pub"])
       simp
  with pose_failure_stops_storing[OF _ _ _ _ computed(2)] show ?thesis by blast
qed


theorem pose_unavailable_aborts_batch_witness:
  "trks_fov_receive example_bridge example_lost_node (example_batch 10) =
     (Some (Raised ''LookupException''), example_lost_node,
      [LookupTransform ''world'' ''agent0'' Time0]) \<and>
   0 \<le> n_agents example_lost_node \<and>
   length (example_batch 10) = nat (2 * n_agents example_lost_node + 1) \<and>
   (\<exists>i<nat (n_agents example_lost_node).
      isl (lookup_pose example_bridge (tf_buffer example_lost_node) i)) \<and>
   publishes [LookupTransform ''world'' ''agent0'' Time0 :: nat event] = [] \<and>
   propagated [LookupTransform ''world'' ''agent0'' Time0 :: nat event] = [] \<and>
   \<not> is_pipeline (LookupTransform ''world'' ''agent0'' Time0 :: nat event)"
proof -
  have hyp: "0 \<le> n_agents example_lost_node \<and>
      length (example_batch 10) = nat (2 * n_agents example_lost_node + 1) \<and>
      (\<exists>i<nat (n_agents example_lost_node).
         isl (lookup_pose example_bridge (tf_buffer example_lost_node) i))"
    by (simp add: example_lost_node_sel example_batch_def lookup_pose_def)
  from pose_unavailable_aborts_batch[OF example_lost_run] hyp example_lost_run
  show ?thesis by simp
qed

subsection \<open>C7: the propagation timestamp is the command-center stamp\<close>

text \<open>
  C7.  Every timestamp handed to \<open>propagate_track_trust\<close> or \<open>propagate_agent_trust\<close>
  in a run of the callback is \<open>rostime_to_time\<close> of the stamp in the header of argument
  \<open>N\<close>, the command-center track message; the stamps of the agent track and FOV
  messages play no part.
\<close>

theorem propagation_uses_command_center_stamp:
  assumes n: "0 \<le> n_agents self"
    and run: "trks_fov_receive E self args = (r, self', evs)"
    and t: "t \<in> set (propagated evs)"
  shows "nat (n_agents self) < length args \<and>
         rostime_to_time E (stamp (header (args ! nat (n_agents self)))) = Inr t"
  using n run t by (rule propagated_command_center)

theorem propagation_uses_command_center_stamp_witness:
  "0 \<le> n_agents (example_node False) \<and>
   (10 :: rat) \<in> set (propagated (snd (snd
      (trks_fov_receive example_bridge (example_node False) (example_batch 10))))) \<and>
   nat (n_agents (example_node False)) < length (example_batch 10) \<and>
   rostime_to_time example_bridge
     (stamp (header (example_batch 10 ! nat (n_agents (example_node False))))) = Inr 10 \<and>
   rostime_to_time example_bridge (stamp (header (example_batch 10 ! 0))) \<noteq> Inr 10"
proof -
  have n: "0 \<le> n_agents (example_node False)"
    by (simp add: example_node_sel)
  have t: "(10 :: rat) \<in> set (propagated
      [LookupTransform ''world'' ''agent0'' Time0, PropagateTrackTrust 10,
       PropagateAgentTrust 10, ModelCall [(0, 99)] [(0, 13)] [(0, 11)] (12 :: nat),
       Publish AgentPsms 103, Publish TrackPsms 104, Publish AgentTrust 201,
       Publish TrackTrust 202])"
    by simp
  have other: "rostime_to_time example_bridge (stamp (header (example_batch 10 ! 0))) \<noteq> Inr 10"
    by (simp add: example_batch_def example_msg_def example_bridge_def)
  from propagation_uses_command_center_stamp[OF n example_run t] n t other
  show ?thesis by (simp add: example_run)
qed

subsection \<open>C8: 2N+1 channels, partitioned by position\<close>

text \<open>
  C8.  For an agent count \<open>N \<ge> 0\<close> the constructor builds the synchronizer over
  \<open>2N+1\<close> subscribers, in this order: the track topics of agents \<open>0..N-1\<close>, the
  command-center track topic, the FOV topics of agents \<open>0..N-1\<close>; with queue size 10
  and slop 0.05 (the declared default of \<open>N\<close> is 4).  And when the callback, on
  \<open>2N+1\<close> arguments, reaches the trust computation, the agent tracks it hands over are
  the conversions of arguments \<open>0..N-1\<close> under the keys \<open>0..N-1\<close>, the command-center
  tracks are the conversion of argument \<open>N\<close>, and the FOVs are the conversions of
  arguments \<open>N+1..2N\<close> under the keys \<open>0..N-1\<close>.
\<close>

theorem synchronizer_channels_and_partition:
  assumes N: "0 \<le> N"
  shows "n_agents (init E vb (Some N) buf) = N \<and>
     n_agents (init E vb None buf) = 4 \<and>
     inputs (synchronizer_trks (init E vb (Some N) buf)) =
       map (\<lambda>i. Subscriber BoxTrackArray (''/agent'' @ str_nat i @ ''/tracks_3d'')) [0..<nat N] @
       [Subscriber BoxTrackArray ''/command_center/tracks_3d''] @
       map (\<lambda>i. Subscriber PolygonStamped (''/agent'' @ str_nat i @ ''/fov'')) [0..<nat N] \<and>
     length (inputs (synchronizer_trks (init E vb (Some N) buf))) = 2 * nat N + 1 \<and>
     queue_size (synchronizer_trks (init E vb (Some N) buf)) = 10 \<and>
     slop (synchronizer_trks (init E vb (Some N) buf)) = 5 / 100 \<and>
     (\<forall>self args r self' evs pa fa ta tcc.
        n_agents self = N \<and> length args = 2 * nat N + 1 \<and>
        trks_fov_receive E self args = (r, self', evs) \<and>
        ModelCall pa fa ta tcc \<in> set evs \<longrightarrow>
          map fst ta = [0..<nat N] \<and>
          map (tracks_to_avstack E) (take (nat N) args) = map Inr (map snd ta) \<and>
          tracks_to_avstack E (args ! nat N) = Inr tcc \<and>
          map fst fa = [0..<nat N] \<and>
          map (polygon_to_avstack E) (drop (Suc (nat N)) args) = map Inr (map snd fa))"
proof -
  have a: "n_agents (init E vb (Some N) buf) = N" "n_agents (init E vb None buf) = 4"
    "queue_size (synchronizer_trks (init E vb (Some N) buf)) = 10"
    "slop (synchronizer_trks (init E vb (Some N) buf)) = 5 / 100"
    by (simp_all add: init_def Let_def)
  note b = init_inputs[OF N, of E vb buf]
  have c: "length (inputs (synchronizer_trks (init E vb (Some N) buf))) = 2 * nat N + 1"
    unfolding b by simp
  have d: "map fst ta = [0..<nat N] \<and>
          map (tracks_to_avstack E) (take (nat N) args) = map Inr (map snd ta) \<and>
          tracks_to_avstack E (args ! nat N) = Inr tcc \<and>
          map fst fa = [0..<nat N] \<and>
          map (polygon_to_avstack E) (drop (Suc (nat N)) args) = map Inr (map snd fa)"
    if "n_agents self = N \<and> length args = 2 * nat N + 1 \<and>
        trks_fov_receive E self args = (r, self', evs) \<and>
        ModelCall pa fa ta tcc \<in> set evs"
    for self :: "('a, 'b) node" and args r self' evs pa fa ta tcc
  proof -
    from that have n: "0 \<le> n_agents self" and len: "length args = 2 * nat (n_agents self) + 1"
      and run: "trks_fov_receive E self args = (r, self', evs)"
      and mc: "ModelCall pa fa ta tcc \<in> set evs"
      using N by simp_all
    from callback_partition[OF n len run mc] that show ?thesis by simp
  qed
  from a b c show ?thesis
    apply (intro conjI)
          apply simp
         apply simp
        apply simp
       apply simp
      apply simp
     apply simp
    apply (intro allI impI)
    apply (erule d)
    done
qed

theorem synchronizer_channels_and_partition_witness:
  "(0 :: int) \<le> 1 \<and>
   inputs (synchronizer_trks (init example_bridge False (Some 1) example_buffer)) =
     [Subscriber BoxTrackArray ''/agent0/tracks_3d'',
      Subscriber BoxTrackArray ''/command_center/tracks_3d'',
      Subscriber PolygonStamped ''/agent0/fov''] \<and>
   n_agents (example_node False) = 1 \<and>
   length (example_batch 10) = 2 * nat 1 + 1 \<and>
   ModelCall [(0, 99)] [(0, 13)] [(0, 11)] 12 \<in> set (snd (snd
      (trks_fov_receive example_bridge (example_node False) (example_batch 10)))) \<and>
   map (tracks_to_avstack example_bridge) (take (nat 1) (example_batch 10))
     = map Inr (map snd [(0 :: nat, 11 :: nat)]) \<and>
   tracks_to_avstack example_bridge (example_batch 10 ! nat 1) = Inr 12 \<and>
   map (polygon_to_avstack example_bridge) (drop (Suc (nat 1)) (example_batch 10))
     = map Inr (map snd [(0 :: nat, 13 :: nat)])"
proof -
  have len: "length (example_batch 10) = 2 * nat 1 + 1"
    by (simp add: example_batch_def)
  have mc: "ModelCall [(0, 99)] [(0, 13)] [(0, 11)] 12 \<in> set
      [LookupTransform ''world'' ''agent0'' Time0,
       PropagateTrackTrust 10, PropagateAgentTrust 10,
       ModelCall [(0, 99)] [(0, 13)] [(0, 11)] (12 :: nat),
       Publish AgentPsms 103, Publish TrackPsms 104, Publish AgentTrust 201,
       Publish TrackTrust 202]"
    by simp
  have le: "(0 :: int) \<le> 1" by simp
  note channels = synchronizer_channels_and_partition[OF le, of example_bridge False
      example_buffer]
  from channels have
    "inputs (synchronizer_trks (init example_bridge False (Some 1) example_buffer)) =
     [Subscriber BoxTrackArray ''/agent0/tracks_3d'',
      Subscriber BoxTrackArray ''/command_center/tracks_3d'',
      Subscriber PolygonStamped ''/agent0/fov'']"
    by (simp add: str_nat_0)
  moreover from channels example_node_sel(1)[of False] len example_run mc
  have "map (tracks_to_avstack example_bridge) (take (nat 1) (example_batch 10))
          = map Inr (map snd [(0 :: nat, 11 :: nat)]) \<and>
        tracks_to_avstack example_bridge (example_batch 10 ! nat 1) = Inr 12 \<and>
        map (polygon_to_avstack example_bridge) (drop (Suc (nat 1)) (example_batch 10))
          = map Inr (map snd [(0 :: nat, 13 :: nat)])"
    by blast
  ultimately show ?thesis
    using len mc by (simp add: example_run example_node_sel)
qed

subsection \<open>C9: a failure while emitting diagnostics is not caught\<close>

text \<open>
  C9, as the spec states it, fails: nothing catches an exception raised while the
  diagnostics are read.  In the example the node is verbose and reading the diagnostics
  raises: the exception leaves the callback (after the four publications), the only log
  line is the "Received" line, and \<^verbatim>\<open>spin\<close> ends with that exception, so the next
  batch is never processed.
\<close>

theorem diagnostics_swallowed_counterexample:
  "fst (trks_fov_receive example_broken_diagnostics (example_node True) (example_batch 10))
     = Some (Raised ''AttributeError'') \<and>
   filter is_log (snd (snd
      (trks_fov_receive example_broken_diagnostics (example_node True) (example_batch 10))))
     = [LogInfo ''Received 3 track/fov messages!''] \<and>
   fst (spin example_broken_diagnostics (example_node True)
      [example_batch 10, example_batch 11]) = Some (Raised ''AttributeError'') \<and>
   propagated (snd (snd (spin example_broken_diagnostics (example_node True)
      [example_batch 10, example_batch 11]))) = [10, 10]"
  by (simp add: example_broken_run)

text \<open>
  C9, amended.  Once all four sinks have published in a run of the callback, the outcome
  of the run is the outcome of emitting the diagnostics on the model as the trust
  computation left it: the events end with the four publications followed by the
  diagnostics' log lines; a quiet node returns; a verbose node raises whatever reading the
  diagnostics or the assignment diagnostics raises (the exception is not caught) and
  returns otherwise.
\<close>

theorem diagnostics_failure_is_raised:
  assumes run: "trks_fov_receive E self args = (r, self', evs)"
    and pub: "length (publishes evs) = 4"
  shows "r = fst (log_diagnostics E (verbose self) (model self')) \<and>
     (\<exists>pre a b c d.
        evs = pre @ [Publish AgentPsms a, Publish TrackPsms b, Publish AgentTrust c,
                Publish TrackTrust d] @ snd (log_diagnostics E (verbose self) (model self')) \<and>
        publishes pre = []) \<and>
     (\<not> verbose self \<longrightarrow> r = None) \<and>
     (verbose self \<longrightarrow>
        (case diagnostics E (model self') of
           Inl e \<Rightarrow> r = Some e
         | Inr d \<Rightarrow>
             (case assign_diagnostics E (model self') of
                Inl e \<Rightarrow> r = Some e
              | Inr a \<Rightarrow> r = None)))"
  using run
proof (cases rule: trks_fov_receive_elim)
  case (aborted lk)
  have "\<forall>e\<in>set evs. is_log e \<or> is_lookup e"
    unfolding aborted(3) using aborted(4) by (rule quiet_prefix)
  with pub show ?thesis by (simp add: publishes_quiet)
next
  case (propagating lk ta ccm tcc fa pa t tail)
  define pre where "pre = received_log (verbose self) args @ lk"
  have q: "\<forall>e\<in>set pre. is_log e \<or> is_lookup e"
    unfolding pre_def using propagating(2) by (intro quiet_prefix) (rule store_fovs_lookups)
  have "evs = pre @ tail" using propagating(6) by (simp add: pre_def)
  moreover have "publishes tail = []" using propagating(7) by auto
  ultimately have "publishes evs = []"
    using publishes_quiet[OF q] by (simp add: publishes_append)
  with pub show ?thesis by simp
next
  case (computed lk ta ccm tcc fa pa t m1 m2 res pub)
  define pre where "pre = received_log (verbose self) args @ lk"
  have q: "\<forall>e\<in>set pre. is_log e \<or> is_lookup e"
    unfolding pre_def using computed(2) by (intro quiet_prefix) (rule store_fovs_lookups)
  define pre' where "pre' = pre @ [PropagateTrackTrust t, PropagateAgentTrust t,
      ModelCall pa fa ta tcc]"
  have pp: "publishes pre' = []"
    using publishes_quiet[OF q] by (simp add: pre'_def publishes_append)
  have ev: "evs = pre' @ pub" using computed(8) by (simp add: pre_def pre'_def)
  with \<open>length (publishes evs) = 4\<close> pp have four: "length (publishes pub) = 4"
    by (simp add: publishes_append)
  show ?thesis
  proof (cases res)
    case (Inl e)
    with computed(9) four show ?thesis by simp
  next
    case (Inr out)
    with computed(9) have po: "publish_outputs E (verbose self) (model self') out = (r, pub)"
      by simp
    from po show ?thesis
    proof (cases rule: publish_outputs_elim)
      case (conversion_raised e)
      with four show ?thesis by simp
    next
      case (publish_raised msgs e)
      from publish_messages_events[OF publish_raised(2)] have "publishes pub = pub"
        by (rule publishes_published)
      with publish_messages_short[OF publish_raised(2)] four show ?thesis by simp
    next
      case (published msgs pubs logs)
      obtain a b c d where msgs: "msgs = (a, b, c, d)" by (cases msgs)
      from publish_messages_all[OF published(2)[unfolded msgs]]
      have pubs: "pubs = [Publish AgentPsms a, Publish TrackPsms b, Publish AgentTrust c,
          Publish TrackTrust d]"
        by simp
      have shape: "\<exists>pre a b c d.
        evs = pre @ [Publish AgentPsms a, Publish TrackPsms b, Publish AgentTrust c,
                Publish TrackTrust d] @ snd (log_diagnostics E (verbose self) (model self')) \<and>
        publishes pre = []"
        using ev published(3,4) pubs pp
        by (intro exI[of _ pre'] exI[of _ a] exI[of _ b] exI[of _ c] exI[of _ d]) simp
      have "r = fst (log_diagnostics E (verbose self) (model self'))"
        using published(3) by simp
      with shape show ?thesis
        by (auto simp: log_diagnostics_def split: sum.splits)
    qed
  qed
qed

theorem diagnostics_failure_is_raised_witness:
  "length (publishes (snd (snd
      (trks_fov_receive example_broken_diagnostics (example_node True) (example_batch 10)))))
     = 4 \<and>
   verbose (example_node True) \<and>
   diagnostics example_broken_diagnostics (model (fst (snd
      (trks_fov_receive example_broken_diagnostics (example_node True) (example_batch 10)))))
     = Inl (Raised ''AttributeError'') \<and>
   fst (trks_fov_receive example_broken_diagnostics (example_node True) (example_batch 10))
     = Some (Raised ''AttributeError'') \<and>
   fst (trks_fov_receive example_broken_diagnostics (example_node True) (example_batch 10))
     = fst (log_diagnostics example_broken_diagnostics (verbose (example_node True))
         (model (fst (snd (trks_fov_receive example_broken_diagnostics (example_node True)
            (example_batch 10))))))"
proof -
  have pub: "length (publishes
      [LogInfo ''Received 3 track/fov messages!'',
       LookupTransform ''world'' ''agent0'' Time0,
       PropagateTrackTrust 10, PropagateAgentTrust 10,
       ModelCall [(0, 99)] [(0, 13)] [(0, 11)] (12 :: nat),
       Publish AgentPsms 103, Publish TrackPsms 104, Publish AgentTrust 201,
       Publish TrackTrust 202]) = 4"
    by simp
  have v: "verbose (example_node True)"
    by (simp add: example_node_sel)
  have d: "diagnostics example_broken_diagnostics (model (fst (snd
      (trks_fov_receive example_broken_diagnostics (example_node True) (example_batch 10)))))
     = Inl (Raised ''AttributeError'')"
    by (simp add: example_broken_diagnostics_def)
  from diagnostics_failure_is_raised[OF example_broken_run pub]
  have "Some (Raised ''AttributeError'') =
      fst (log_diagnostics example_broken_diagnostics (verbose (example_node True))
        (model ((example_node True)\<lparr>model := 10\<rparr>)))"
    by (rule conjunct1)
  with pub v d show ?thesis
    by (simp add: example_broken_run)
qed

subsection \<open>C10: the verbose flag adds log lines and the outcome of the diagnostics\<close>

text \<open>
  C10, as the spec states it, fails: the verbose flag does not only add log output.  A
  verbose node reads the diagnostics, and nothing catches what reading them raises.  In
  the example the same node on the same batch publishes the same four messages with the
  flag off and on, but the quiet callback returns and the verbose callback raises, with
  no diagnostics line logged.
\<close>

theorem verbose_changes_outcome_counterexample:
  "fst (trks_fov_receive example_broken_diagnostics ((example_node False)\<lparr>verbose := False\<rparr>)
      (example_batch 10)) = None \<and>
   fst (trks_fov_receive example_broken_diagnostics ((example_node False)\<lparr>verbose := True\<rparr>)
      (example_batch 10)) = Some (Raised ''AttributeError'') \<and>
   publishes (snd (snd (trks_fov_receive example_broken_diagnostics
      ((example_node False)\<lparr>verbose := True\<rparr>) (example_batch 10)))) =
   publishes (snd (snd (trks_fov_receive example_broken_diagnostics
      ((example_node False)\<lparr>verbose := False\<rparr>) (example_batch 10)))) \<and>
   filter is_log (snd (snd (trks_fov_receive example_broken_diagnostics
      ((example_node False)\<lparr>verbose := True\<rparr>) (example_batch 10)))) =
     [LogInfo ''Received 3 track/fov messages!'']"
  by (simp add: example_broken_quiet_run example_broken_loud_run)

text \<open>
  C10, amended.  Take a node and a batch, and run the callback once with \<open>verbose\<close> off
  and once with it on.  The published messages are the same and the model afterwards is
  the same.  If the quiet run raises, the verbose run raises the same exception and its
  events are the "Received" line followed by the quiet run's events.  If the quiet run
  returns, its events end with the four publications, and the verbose run then emits the
  diagnostics: its events are the "Received" line, the quiet run's events and the
  diagnostics' log lines, and its outcome is the outcome of the diagnostics, which may be
  an exception.  So the diagnostics are read and logged only after all four publishes,
  and the flag changes the log and, through the diagnostics, whether the callback
  returns.
\<close>

theorem verbose_adds_logs_and_diagnostics:
  assumes quiet: "trks_fov_receive E (self\<lparr>verbose := False\<rparr>) args = (r0, s0, evs0)"
    and loud: "trks_fov_receive E (self\<lparr>verbose := True\<rparr>) args = (r1, s1, evs1)"
  shows "publishes evs1 = publishes evs0 \<and> model s1 = model s0 \<and>
         evs1 = received_log True args @ evs0 @
           (if r0 = None then snd (log_diagnostics E True (model s0)) else []) \<and>
         r1 = (if r0 = None then fst (log_diagnostics E True (model s0)) else r0) \<and>
         (\<forall>e\<in>set (snd (log_diagnostics E True (model s0))). is_log e) \<and>
         (r0 = None \<longrightarrow>
            (\<exists>pre a b c d. evs0 = pre @ [Publish AgentPsms a, Publish TrackPsms b,
               Publish AgentTrust c, Publish TrackTrust d]))"
proof -
  define logs where "logs = (if r0 = None then snd (log_diagnostics E True (model s0)) else [])"
  have all: "\<forall>e\<in>set (snd (log_diagnostics E True (model s0))). is_log e"
    by (rule log_diagnostics_logs[of E True "model s0"
          "fst (log_diagnostics E True (model s0))"]) simp
  then have lg: "\<forall>e\<in>set logs. is_log e" by (simp add: logs_def)
  from verbose_run[OF quiet loud] have ev: "evs1 = received_log True args @ evs0 @ logs"
    by (simp add: logs_def)
  have "publishes (received_log True args) = []"
    using received_log_logs[of True args] by (rule publishes_logs)
  moreover have "publishes logs = []"
    using lg by (rule publishes_logs)
  ultimately have "publishes evs1 = publishes evs0"
    unfolding ev publishes_append by simp
  with verbose_run[OF quiet loud] all show ?thesis by simp
qed

theorem verbose_adds_logs_and_diagnostics_witness:
  "fst (trks_fov_receive example_bridge ((example_node False)\<lparr>verbose := False\<rparr>)
      (example_batch 10)) = None \<and>
   fst (trks_fov_receive example_bridge ((example_node False)\<lparr>verbose := True\<rparr>)
      (example_batch 10)) =
     fst (log_diagnostics example_bridge True 10) \<and>
   snd (snd (trks_fov_receive example_bridge ((example_node False)\<lparr>verbose := True\<rparr>)
      (example_batch 10))) =
     received_log True (example_batch 10) @
     snd (snd (trks_fov_receive example_bridge ((example_node False)\<lparr>verbose := False\<rparr>)
       (example_batch 10))) @
     [LogInfo ''diagnostics'', LogInfo ''assign diagnostics''] \<and>
   publishes (snd (snd (trks_fov_receive example_bridge
      ((example_node False)\<lparr>verbose := True\<rparr>) (example_batch 10)))) =
     [Publish AgentPsms 103, Publish TrackPsms 104, Publish AgentTrust 201,
      Publish TrackTrust 202] \<and>
   publishes (snd (snd (trks_fov_receive example_bridge
      ((example_node False)\<lparr>verbose := False\<rparr>) (example_batch 10)))) =
     [Publish AgentPsms 103, Publish TrackPsms 104, Publish AgentTrust 201,
      Publish TrackTrust 202]"
proof -
  have ld: "log_diagnostics example_bridge True 10 =
      (None, [LogInfo ''diagnostics'', LogInfo ''assign diagnostics''])"
    by (simp add: log_diagnostics_def example_bridge_def)
  from verbose_adds_logs_and_diagnostics[OF example_quiet_run example_loud_run]
  show ?thesis
    by (simp add: example_quiet_run example_loud_run example_received ld)
qed

end
